theory Spec2Isabelle
  imports Main
begin

section \<open>Classes, values and actions\<close>

text \<open>
  The classes that \<^verbatim>\<open>core.py\<close> names, the builtin classes its rules are registered
  on, and two families of user classes: \<open>UserC n\<close> is a new-style class deriving from
  \<^verbatim>\<open>object\<close>, \<open>ClassicC n\<close> a classic class without bases. Exceptions are new-style
  classes (Python 2.5 and later).
\<close>

datatype cls =
    ObjectC | TypeC | ClassTypeC | InstanceTypeC | TupleC | IntC | BoolC | StrC | NoneTypeC
  | MethodC | AroundC | MethodListC | BeforeC | AfterC
  | ExceptionC | DispatchErrorC | NoApplicableMethodsC | AmbiguousMethodsC
  | UserC nat | ClassicC nat

text \<open>The method resolution order of each class: the class itself, then its bases.\<close>

fun mro :: "cls \<Rightarrow> cls list" where
  "mro ObjectC = [ObjectC]"
| "mro BoolC = [BoolC, IntC, ObjectC]"
| "mro AroundC = [AroundC, MethodC, ObjectC]"
| "mro MethodListC = [MethodListC, MethodC, ObjectC]"
| "mro BeforeC = [BeforeC, MethodListC, MethodC, ObjectC]"
| "mro AfterC = [AfterC, MethodListC, MethodC, ObjectC]"
| "mro DispatchErrorC = [DispatchErrorC, ExceptionC, ObjectC]"
| "mro NoApplicableMethodsC = [NoApplicableMethodsC, DispatchErrorC, ExceptionC, ObjectC]"
| "mro AmbiguousMethodsC = [AmbiguousMethodsC, DispatchErrorC, ExceptionC, ObjectC]"
| "mro (ClassicC n) = [ClassicC n]"
| "mro c = [c, ObjectC]"

definition issubclass :: "cls \<Rightarrow> cls \<Rightarrow> bool" where
  "issubclass c1 c2 = (c2 \<in> set (mro c1))"

fun is_classic :: "cls \<Rightarrow> bool" where
  "is_classic (ClassicC n) = True"
| "is_classic c = False"

text \<open>
  The bodies of rules. The first group are the functions \<^verbatim>\<open>core.py\<close> registers on
  \<^verbatim>\<open>implies\<close>; \<open>ImpliesDefault\<close> is the clone of the original \<^verbatim>\<open>implies\<close>
  (\<^verbatim>\<open>s1==s2\<close>) that \<^verbatim>\<open>rules_for\<close> installs as the default rule. A user body
  \<open>UserRet name r\<close> is an ordinary function that records \<open>name\<close> in the trace and
  returns the string \<open>r\<close>; \<open>UserNext name\<close> is a function whose first formal is
  \<^verbatim>\<open>next_method\<close>: it records \<open>name\<close> and returns \<^verbatim>\<open>next_method(*args)\<close>.
\<close>

datatype body =
    ImpliesDefault | TupleImplies | IsSubclass | ClassicImpliesNew | MethodImplies
  | YES | NO | LambdaBoolBool | LambdaBoolObject | LambdaObjectBool
  | AmbiguousOverrides | OverrideAmbiguous
  | UserRet string string | UserNext string

text \<open>
  \<^verbatim>\<open>Method.__init__\<close>: \<^verbatim>\<open>can_tail\<close> is set when the first formal of the body is
  \<^verbatim>\<open>next_method\<close>. None of the functions registered on \<^verbatim>\<open>implies\<close> has one
  (\<^verbatim>\<open>issubclass\<close> is a builtin: \<^verbatim>\<open>getargspec\<close> raises TypeError, which is caught).
\<close>

fun chainable :: "body \<Rightarrow> bool" where
  "chainable (UserNext name) = True"
| "chainable b = False"

text \<open>
  A signature is a tuple of classes, the form \<^verbatim>\<open>TypeEngine\<close> dispatches on
  (\<^verbatim>\<open>types==sig or implies(types, sig)\<close>, with \<^verbatim>\<open>types\<close> the tuple of the argument
  classes).
\<close>

type_synonym sig = "cls list"

datatype mkind = KMethod | KAround

datatype lkind = KMethodList | KBefore | KAfter

text \<open>
  Actions. \<open>Method k body signature precedence tail\<close> is an instance of \<^verbatim>\<open>Method\<close> or
  \<^verbatim>\<open>Around\<close>; \<open>MethodList k items tail\<close> an instance of \<^verbatim>\<open>MethodList\<close>,
  \<^verbatim>\<open>Before\<close> or \<^verbatim>\<open>After\<close> with its \<^verbatim>\<open>(signature, precedence, body)\<close> items;
  \<open>NoApplicableMethods\<close> is the instance without arguments that
  \<^verbatim>\<open>RuleSet.default_action\<close> holds; \<open>AmbiguousMethods ms\<close> carries its
  \<^verbatim>\<open>methods\<close>. A tail is \<open>None\<close> or an action.
\<close>

datatype action =
    Method mkind body sig nat "action option"
  | MethodList lkind "(sig \<times> nat \<times> body) list" "action option"
  | NoApplicableMethods
  | AmbiguousMethods "action list"

datatype val =
    VNone | VBool bool | VInt int | VStr string | VCls cls | VTuple "val list"
  | VObj nat nat | VOldObj nat nat | VAct action

datatype err =
    TypeError string | AttributeError string | KeyError | ValueError
  | NoApplicableMethodsE "val list" | AmbiguousMethodsE "action list" "val list"
  | RecursionLimit

type_synonym trace = "string list"

fun action_class :: "action \<Rightarrow> cls" where
  "action_class (Method KMethod b s p t) = MethodC"
| "action_class (Method KAround b s p t) = AroundC"
| "action_class (MethodList KMethodList items t) = MethodListC"
| "action_class (MethodList KBefore items t) = BeforeC"
| "action_class (MethodList KAfter items t) = AfterC"
| "action_class NoApplicableMethods = NoApplicableMethodsC"
| "action_class (AmbiguousMethods ms) = AmbiguousMethodsC"

text \<open>
  \<^verbatim>\<open>getattr(arg,'__class__',type(arg))\<close>: \<open>VObj n i\<close> is the instance \<open>i\<close> of the
  new-style class \<open>UserC n\<close>, \<open>VOldObj n i\<close> the instance \<open>i\<close> of the classic class
  \<open>ClassicC n\<close>. A classic class has no \<^verbatim>\<open>__class__\<close> attribute, so its type
  \<^verbatim>\<open>ClassType\<close> is taken.
\<close>

fun class_of :: "val \<Rightarrow> cls" where
  "class_of VNone = NoneTypeC"
| "class_of (VBool b) = BoolC"
| "class_of (VInt i) = IntC"
| "class_of (VStr s) = StrC"
| "class_of (VCls c) = (if is_classic c then ClassTypeC else TypeC)"
| "class_of (VTuple xs) = TupleC"
| "class_of (VObj n i) = UserC n"
| "class_of (VOldObj n i) = ClassicC n"
| "class_of (VAct a) = action_class a"

text \<open>Python's truth value of an object (all the classes here take the default for instances).\<close>

fun truthy :: "val \<Rightarrow> bool" where
  "truthy VNone = False"
| "truthy (VBool b) = b"
| "truthy (VInt i) = (i \<noteq> 0)"
| "truthy (VStr s) = (s \<noteq> [])"
| "truthy (VTuple xs) = (xs \<noteq> [])"
| "truthy v = True"

text \<open>
  Python's \<^verbatim>\<open>==\<close>. A bool equals the int of its value; tuples compare elementwise;
  classes and instances compare by identity. Actions are immutable records here, and
  equality of the records stands for the identity of the objects.
\<close>

fun py_eq :: "val \<Rightarrow> val \<Rightarrow> bool" where
  "py_eq (VBool b) (VInt i) = (i = (if b then 1 else 0))"
| "py_eq (VInt i) (VBool b) = (i = (if b then 1 else 0))"
| "py_eq (VTuple []) (VTuple []) = True"
| "py_eq (VTuple (x # xs)) (VTuple (y # ys)) = (py_eq x y \<and> py_eq (VTuple xs) (VTuple ys))"
| "py_eq (VTuple xs) (VTuple ys) = False"
| "py_eq v w = (v = w)"

definition sigv :: "sig \<Rightarrow> val" where
  "sigv s = VTuple (map VCls s)"

section \<open>The action algebra\<close>

text \<open>
  \<^verbatim>\<open>implies\<close> is a global name that every function of \<^verbatim>\<open>core.py\<close> looks up when it
  runs; here each function takes it as its first argument \<open>imp\<close>. The generic function
  itself is defined further down.
\<close>

type_synonym implies_fn = "val \<Rightarrow> val \<Rightarrow> err + val"

text \<open>\<^verbatim>\<open>AmbiguousMethods.__init__\<close>: the methods of nested instances are spliced in.\<close>

fun flatten_methods :: "action list \<Rightarrow> action list" where
  "flatten_methods [] = []"
| "flatten_methods (AmbiguousMethods ms # rest) = ms @ flatten_methods rest"
| "flatten_methods (m # rest) = m # flatten_methods rest"

definition AmbiguousMethods_init :: "action list \<Rightarrow> action" where
  "AmbiguousMethods_init methods = AmbiguousMethods (flatten_methods methods)"

text \<open>\<^verbatim>\<open>tail_with\<close>: a copy of the action with another tail.\<close>

fun tail_with :: "action \<Rightarrow> action option \<Rightarrow> action" where
  "tail_with (Method k b s p t) t' = Method k b s p t'"
| "tail_with (MethodList k items t) t' = MethodList k items t'"
| "tail_with a t' = a"

text \<open>
  \<^verbatim>\<open>combine_actions\<close> with the \<^verbatim>\<open>override\<close> and \<^verbatim>\<open>merge\<close> methods of the action
  classes. \<^verbatim>\<open>MethodList\<close> inherits \<^verbatim>\<open>Method.override\<close> and always has
  \<^verbatim>\<open>can_tail\<close> set. \<^verbatim>\<open>NoApplicableMethods\<close> inherits no \<^verbatim>\<open>override\<close>, so calling
  it is an AttributeError. In \<^verbatim>\<open>combine_actions\<close> both calls of \<^verbatim>\<open>implies\<close> are
  made on every path, first \<^verbatim>\<open>implies(a1,a2)\<close>.
\<close>

function combine_actions :: "implies_fn \<Rightarrow> action option \<Rightarrow> action option \<Rightarrow> err + action option"
  and override :: "implies_fn \<Rightarrow> action \<Rightarrow> action \<Rightarrow> err + action"
  and merge :: "implies_fn \<Rightarrow> action \<Rightarrow> action \<Rightarrow> err + action"
where
  "combine_actions imp None a2 = Inr a2"
| "combine_actions imp (Some a1) None = Inr (Some a1)"
| "combine_actions imp (Some a1) (Some a2) =
     (case imp (VAct a1) (VAct a2) of
        Inl e \<Rightarrow> Inl e
      | Inr r12 \<Rightarrow>
          (if truthy r12 then
             (case imp (VAct a2) (VAct a1) of
                Inl e \<Rightarrow> Inl e
              | Inr r21 \<Rightarrow>
                  (if \<not> truthy r21 then map_sum id Some (override imp a1 a2)
                   else map_sum id Some (merge imp a1 a2)))
           else
             (case imp (VAct a2) (VAct a1) of
                Inl e \<Rightarrow> Inl e
              | Inr r21 \<Rightarrow>
                  (if truthy r21 then map_sum id Some (override imp a2 a1)
                   else map_sum id Some (merge imp a1 a2)))))"
| "override imp (Method k b s p t) other =
     (if \<not> chainable b then Inr (Method k b s p t)
      else (case combine_actions imp t (Some other) of
              Inl e \<Rightarrow> Inl e
            | Inr t' \<Rightarrow> Inr (tail_with (Method k b s p t) t')))"
| "override imp (MethodList k items t) other =
     (case combine_actions imp t (Some other) of
        Inl e \<Rightarrow> Inl e
      | Inr t' \<Rightarrow> Inr (tail_with (MethodList k items t) t'))"
| "override imp NoApplicableMethods other = Inl (AttributeError ''override'')"
| "override imp (AmbiguousMethods ms) other = Inr (AmbiguousMethods ms)"
| "merge imp (Method k b s p t) other = Inr (AmbiguousMethods_init [Method k b s p t, other])"
| "merge imp (MethodList k items t) other =
     (case other of
        MethodList k' items' t' \<Rightarrow>
          (if k' \<noteq> k
           then Inl (TypeError ''Incompatible action types for merge'')
           else (case combine_actions imp t t' of
                   Inl e \<Rightarrow> Inl e
                 | Inr t'' \<Rightarrow> Inr (MethodList k (items @ items') t'')))
      | _ \<Rightarrow> Inl (TypeError ''Incompatible action types for merge''))"
| "merge imp NoApplicableMethods other = Inr (AmbiguousMethods_init [NoApplicableMethods, other])"
| "merge imp (AmbiguousMethods ms) other = Inr (AmbiguousMethods_init (ms @ [other]))"
  by pat_completeness auto
termination
  by (relation "measure (\<lambda>x. case x of
         Inl (imp, a1, a2) \<Rightarrow> 2 * (size_option size a1 + size_option size a2) + 1
       | Inr (Inl (imp, a, other)) \<Rightarrow> 2 * (size a + size other) + 2
       | Inr (Inr (imp, a, other)) \<Rightarrow> 2 * (size a + size other) + 2)") auto

section \<open>Dominance and the order of a method list\<close>

text \<open>\<^verbatim>\<open>list.remove(x)\<close>: the first element equal to \<open>x\<close> goes; ValueError when there is none.\<close>

definition list_remove :: "'a list \<Rightarrow> 'a \<Rightarrow> err + 'a list" where
  "list_remove xs x = (if x \<in> set xs then Inr (remove1 x xs) else Inl ValueError)"

text \<open>
  The inner loop of \<^verbatim>\<open>dominant_signatures\<close> over the copy \<^verbatim>\<open>best[:]\<close>, for one new
  case. It returns the updated \<^verbatim>\<open>best\<close> and whether the loop ended without
  \<^verbatim>\<open>break\<close> (the \<^verbatim>\<open>else\<close> branch of the \<^verbatim>\<open>for\<close>).
\<close>

fun gauntlet :: "implies_fn \<Rightarrow> sig \<times> body \<Rightarrow> (sig \<times> body) list \<Rightarrow> (sig \<times> body) list
    \<Rightarrow> err + ((sig \<times> body) list \<times> bool)" where
  "gauntlet imp new [] best = Inr (best, True)"
| "gauntlet imp new (old # olds) best =
     (case imp (sigv (fst new)) (sigv (fst old)) of
        Inl e \<Rightarrow> Inl e
      | Inr new_implies_old \<Rightarrow>
          (case imp (sigv (fst old)) (sigv (fst new)) of
             Inl e \<Rightarrow> Inl e
           | Inr old_implies_new \<Rightarrow>
               (if truthy new_implies_old then
                  (if \<not> truthy old_implies_new then
                     (case list_remove best old of
                        Inl e \<Rightarrow> Inl e
                      | Inr best' \<Rightarrow> gauntlet imp new olds best')
                   else gauntlet imp new olds best)
                else if truthy old_implies_new then Inr (best, False)
                else gauntlet imp new olds best)))"

fun dominant_loop :: "implies_fn \<Rightarrow> (sig \<times> body) list \<Rightarrow> (sig \<times> body) list
    \<Rightarrow> err + (sig \<times> body) list" where
  "dominant_loop imp [] best = Inr best"
| "dominant_loop imp (new # rest) best =
     (case gauntlet imp new best best of
        Inl e \<Rightarrow> Inl e
      | Inr (best', passed) \<Rightarrow>
          dominant_loop imp rest (if passed then best' @ [new] else best'))"

definition dominant_signatures :: "implies_fn \<Rightarrow> (sig \<times> body) list \<Rightarrow> err + (sig \<times> body) list" where
  "dominant_signatures imp cases =
     (if length cases = 1 then Inr cases
      else dominant_loop imp (drop 1 cases) (take 1 cases))"

text \<open>The result of \<^verbatim>\<open>dominant_signatures\<close> on a list that is not empty is not empty.\<close>

lemma gauntlet_break_nonempty:
  "gauntlet imp new olds cur = Inr (best', False) \<Longrightarrow>
   (\<And>x. count_list olds x \<le> count_list cur x) \<Longrightarrow> best' \<noteq> []"
proof (induction olds arbitrary: cur)
  case Nil
  then show ?case by simp
next
  case (Cons old olds)
  have old_in: "old \<in> set cur"
  proof -
    have "count_list (old # olds) old \<le> count_list cur old" by (rule Cons.prems(2))
    then have "0 < count_list cur old" by simp
    then show ?thesis using count_list_0_iff[of cur old] by auto
  qed
  have le: "count_list olds x \<le> count_list cur x" for x
    using Cons.prems(2)[of x] by (simp split: if_splits)
  have le': "count_list olds x \<le> count_list (remove1 old cur) x" for x
  proof (cases "x = old")
    case True
    have "count_list (old # olds) old \<le> count_list cur old" by (rule Cons.prems(2))
    moreover have "count_list (remove1 old cur) old = count_list cur old - 1"
      using old_in by (induction cur) auto
    ultimately show ?thesis using True by simp
  next
    case False
    have "count_list (remove1 old cur) x = count_list cur x"
      using False by (induction cur) auto
    then show ?thesis using le[of x] by simp
  qed
  from Cons.prems(1) show ?case
    using old_in Cons.IH[of cur] Cons.IH[of "remove1 old cur"] le le'
    by (auto simp: list_remove_def split: sum.splits if_splits)
qed

lemma dominant_loop_nonempty:
  "dominant_loop imp rest best = Inr r \<Longrightarrow> best \<noteq> [] \<Longrightarrow> r \<noteq> []"
proof (induction rest arbitrary: best)
  case Nil
  then show ?case by simp
next
  case (Cons new rest)
  from Cons.prems(1) obtain best' passed where
    g: "gauntlet imp new best best = Inr (best', passed)" and
    d: "dominant_loop imp rest (if passed then best' @ [new] else best') = Inr r"
    by (auto split: sum.splits)
  have "(if passed then best' @ [new] else best') \<noteq> []"
    using g gauntlet_break_nonempty[of imp new best best best'] by (cases passed) auto
  with d show ?case by (rule Cons.IH)
qed

lemma dominant_signatures_nonempty:
  "dominant_signatures imp cases = Inr best \<Longrightarrow> cases \<noteq> [] \<Longrightarrow> best \<noteq> []"
  unfolding dominant_signatures_def
  by (cases cases) (auto split: if_splits dest: dominant_loop_nonempty)

text \<open>\<^verbatim>\<open>map(rest.remove, best)\<close>: each element of \<^verbatim>\<open>best\<close> is removed from \<^verbatim>\<open>rest\<close> in turn.\<close>

fun remove_each :: "'a list \<Rightarrow> 'a list \<Rightarrow> err + 'a list" where
  "remove_each rest [] = Inr rest"
| "remove_each rest (x # xs) =
     (case list_remove rest x of Inl e \<Rightarrow> Inl e | Inr rest' \<Rightarrow> remove_each rest' xs)"

lemma remove_each_length:
  "remove_each rest best = Inr rest' \<Longrightarrow> length rest' + length best = length rest"
proof (induction best arbitrary: rest)
  case Nil
  then show ?case by simp
next
  case (Cons x xs)
  from Cons.prems obtain r where r: "x \<in> set rest" "r = remove1 x rest" "remove_each r xs = Inr rest'"
    by (auto simp: list_remove_def split: if_splits)
  from Cons.IH[OF r(3)] r(1,2) show ?case
    by (simp add: length_remove1) (metis Suc_pred length_pos_if_in_set)
qed

text \<open>
  The loop of \<^verbatim>\<open>MethodList.sorted\<close> that emits the items of \<^verbatim>\<open>best\<close> whose body
  has not been seen.
\<close>

fun emit :: "(sig \<times> body) list \<Rightarrow> body list \<Rightarrow> (sig \<times> body) list \<Rightarrow> body list \<times> (sig \<times> body) list" where
  "emit [] seen items = (seen, items)"
| "emit ((s, b) # best) seen items =
     (if b \<in> set seen then emit best seen items
      else emit best (b # seen) (items @ [(s, b)]))"

text \<open>The \<^verbatim>\<open>while rest:\<close> loop of \<^verbatim>\<open>MethodList.sorted\<close>.\<close>

function sorted_loop :: "implies_fn \<Rightarrow> (sig \<times> body) list \<Rightarrow> body list \<Rightarrow> (sig \<times> body) list
    \<Rightarrow> err + (sig \<times> body) list" where
  "sorted_loop imp rest seen items =
     (if rest = [] then Inr items
      else (case dominant_signatures imp rest of
              Inl e \<Rightarrow> Inl e
            | Inr best \<Rightarrow>
                (case remove_each rest best of
                   Inl e \<Rightarrow> Inl e
                 | Inr rest' \<Rightarrow>
                     sorted_loop imp rest' (fst (emit best seen items)) (snd (emit best seen items)))))"
  by pat_completeness auto
termination sorted_loop
proof (relation "measure (\<lambda>(imp, rest, seen, items). length rest)", goal_cases)
  case 1
  show ?case by simp
next
  case (2 imp rest seen items best rest')
  from dominant_signatures_nonempty[OF 2(2) 2(1)] remove_each_length[OF 2(3)]
  show ?case by (cases best) auto
qed

text \<open>
  \<^verbatim>\<open>MethodList.sorted\<close>: the items in ascending precedence (a stable sort), then the rounds
  of dominance. \<^verbatim>\<open>After.sorted\<close> reverses the list. The cache \<^verbatim>\<open>_sorted_items\<close>
  of the object holds what the first call computed and is not modelled.
\<close>

definition MethodList_sorted :: "implies_fn \<Rightarrow> (sig \<times> nat \<times> body) list \<Rightarrow> err + (sig \<times> body) list" where
  "MethodList_sorted imp items =
     sorted_loop imp (map (\<lambda>(s, p, b). (s, b)) (sort_key (\<lambda>(s, p, b). p) items)) [] []"

definition After_sorted :: "implies_fn \<Rightarrow> (sig \<times> nat \<times> body) list \<Rightarrow> err + (sig \<times> body) list" where
  "After_sorted imp items = map_sum id rev (MethodList_sorted imp items)"

section \<open>The functions registered on implies\<close>

text \<open>The \<^verbatim>\<open>for\<close> loop of \<^verbatim>\<open>tuple_implies\<close> over \<^verbatim>\<open>zip(s1,s2)\<close>.\<close>

fun all_implies :: "implies_fn \<Rightarrow> (val \<times> val) list \<Rightarrow> err + val" where
  "all_implies imp [] = Inr (VBool True)"
| "all_implies imp ((t1, t2) # rest) =
     (case imp t1 t2 of
        Inl e \<Rightarrow> Inl e
      | Inr r \<Rightarrow> (if \<not> truthy r then Inr (VBool False) else all_implies imp rest))"

fun tuple_implies :: "implies_fn \<Rightarrow> val \<Rightarrow> val \<Rightarrow> err + val" where
  "tuple_implies imp (VTuple s1) (VTuple s2) =
     (if length s2 > length s1 then Inr (VBool False)
      else all_implies imp (zip s1 s2))"
| "tuple_implies imp s1 s2 = Inr (VBool (py_eq s1 s2))"

text \<open>
  \<^verbatim>\<open>issubclass\<close>, which raises TypeError on an argument that is not a class. It is
  registered on pairs of \<^verbatim>\<open>type\<close> and \<^verbatim>\<open>ClassType\<close> only.
\<close>

fun py_issubclass :: "val \<Rightarrow> val \<Rightarrow> err + val" where
  "py_issubclass (VCls c1) (VCls c2) = Inr (VBool (issubclass c1 c2))"
| "py_issubclass s1 s2 = Inl (TypeError ''issubclass() arg must be a class'')"

definition classic_implies_new :: "val \<Rightarrow> val \<Rightarrow> err + val" where
  "classic_implies_new s1 s2 = Inr (VBool (s2 = VCls ObjectC \<or> s2 = VCls InstanceTypeC))"

text \<open>
  \<^verbatim>\<open>method_implies\<close>. Only instances of \<^verbatim>\<open>Method\<close> and \<^verbatim>\<open>Around\<close> have the
  attribute \<^verbatim>\<open>signature\<close>; a classic class has no attribute \<^verbatim>\<open>__class__\<close>.
\<close>

fun lacks_class_attr :: "val \<Rightarrow> bool" where
  "lacks_class_attr (VCls c) = is_classic c"
| "lacks_class_attr v = False"

fun method_implies :: "implies_fn \<Rightarrow> val \<Rightarrow> val \<Rightarrow> err + val" where
  "method_implies imp (VAct (Method k1 b1 s1 p1 t1)) (VAct (Method k2 b2 s2 p2 t2)) =
     (if k1 = k2 then imp (sigv s1) (sigv s2)
      else Inl (TypeError ''Incompatible action types''))"
| "method_implies imp a1 a2 =
     (if lacks_class_attr a1 \<or> lacks_class_attr a2 then Inl (AttributeError ''__class__'')
      else if class_of a1 = class_of a2 then Inl (AttributeError ''signature'')
      else Inl (TypeError ''Incompatible action types''))"

text \<open>The loop of \<^verbatim>\<open>ambiguous_overrides\<close> over \<^verbatim>\<open>a1.methods\<close>.\<close>

fun any_implies :: "implies_fn \<Rightarrow> action list \<Rightarrow> val \<Rightarrow> err + val" where
  "any_implies imp [] a2 = Inr (VBool False)"
| "any_implies imp (m # ms) a2 =
     (case imp (VAct m) a2 of
        Inl e \<Rightarrow> Inl e
      | Inr r \<Rightarrow> (if truthy r then Inr (VBool True) else any_implies imp ms a2))"

fun ambiguous_overrides :: "implies_fn \<Rightarrow> val \<Rightarrow> val \<Rightarrow> err + val" where
  "ambiguous_overrides imp (VAct (AmbiguousMethods ms)) a2 = any_implies imp ms a2"
| "ambiguous_overrides imp a1 a2 = Inl (AttributeError ''methods'')"

text \<open>The loop of \<^verbatim>\<open>override_ambiguous\<close> over \<^verbatim>\<open>a2.methods\<close>.\<close>

fun implies_all :: "implies_fn \<Rightarrow> val \<Rightarrow> action list \<Rightarrow> err + val" where
  "implies_all imp a1 [] = Inr (VBool True)"
| "implies_all imp a1 (m # ms) =
     (case imp a1 (VAct m) of
        Inl e \<Rightarrow> Inl e
      | Inr r \<Rightarrow> (if \<not> truthy r then Inr (VBool False) else implies_all imp a1 ms))"

fun override_ambiguous :: "implies_fn \<Rightarrow> val \<Rightarrow> val \<Rightarrow> err + val" where
  "override_ambiguous imp a1 (VAct (AmbiguousMethods ms)) = implies_all imp a1 ms"
| "override_ambiguous imp a1 a2 = Inl (AttributeError ''methods'')"

text \<open>
  A body called as \<^verbatim>\<open>body(*args)\<close>. The functions registered on \<^verbatim>\<open>implies\<close> take two
  arguments. A body whose first formal is \<^verbatim>\<open>next_method\<close> takes its first argument
  for it when it is called this way (as the items of a method list are); the arguments
  here are taken not to be callable, so that call is a TypeError.
\<close>

fun native_body :: "implies_fn \<Rightarrow> body \<Rightarrow> val \<Rightarrow> val \<Rightarrow> err + val" where
  "native_body imp ImpliesDefault s1 s2 = Inr (VBool (py_eq s1 s2))"
| "native_body imp TupleImplies s1 s2 = tuple_implies imp s1 s2"
| "native_body imp IsSubclass s1 s2 = py_issubclass s1 s2"
| "native_body imp ClassicImpliesNew s1 s2 = classic_implies_new s1 s2"
| "native_body imp MethodImplies s1 s2 = method_implies imp s1 s2"
| "native_body imp YES s1 s2 = Inr (VBool True)"
| "native_body imp NO s1 s2 = Inr (VBool False)"
| "native_body imp LambdaBoolBool c1 c2 = Inr (if truthy c2 then c2 else VBool (\<not> truthy c1))"
| "native_body imp LambdaBoolObject c1 c2 = Inr (VBool (\<not> truthy c1))"
| "native_body imp LambdaObjectBool c1 c2 = Inr c2"
| "native_body imp AmbiguousOverrides a1 a2 = ambiguous_overrides imp a1 a2"
| "native_body imp OverrideAmbiguous a1 a2 = override_ambiguous imp a1 a2"
| "native_body imp b s1 s2 = Inl (TypeError ''not a function of implies'')"

fun run_body :: "implies_fn \<Rightarrow> body \<Rightarrow> val list \<Rightarrow> trace \<Rightarrow> trace \<times> (err + val)" where
  "run_body imp (UserRet name r) args tr = (tr @ [name], Inr (VStr r))"
| "run_body imp (UserNext name) args tr = (tr, Inl (TypeError ''next_method is not callable''))"
| "run_body imp b [s1, s2] tr = (tr, native_body imp b s1 s2)"
| "run_body imp b args tr = (tr, Inl (TypeError ''takes exactly 2 arguments''))"

text \<open>The loop \<^verbatim>\<open>for sig, body in self.sorted(): body(*args, **kw)\<close>; the results are dropped.\<close>

fun run_bodies :: "implies_fn \<Rightarrow> (sig \<times> body) list \<Rightarrow> val list \<Rightarrow> trace \<Rightarrow> trace \<times> (err + val)" where
  "run_bodies imp [] args tr = (tr, Inr VNone)"
| "run_bodies imp ((s, b) # rest) args tr =
     (case run_body imp b args tr of
        (tr', Inl e) \<Rightarrow> (tr', Inl e)
      | (tr', Inr r) \<Rightarrow> run_bodies imp rest args tr')"

section \<open>Calling an action\<close>

text \<open>
  The \<^verbatim>\<open>__call__\<close> methods. \<^verbatim>\<open>Method.__call__\<close> passes the tail as
  \<^verbatim>\<open>next_method\<close> when \<^verbatim>\<open>can_tail\<close> is set; calling a tail that is \<^verbatim>\<open>None\<close> is a
  TypeError. A bare \<^verbatim>\<open>MethodList\<close> inherits \<^verbatim>\<open>Method.__call__\<close> and has no
  \<^verbatim>\<open>body\<close>. \<^verbatim>\<open>After.__call__\<close> has no \<^verbatim>\<open>return\<close> statement. The trace records
  the user bodies in the order they start.
\<close>

fun call_action :: "implies_fn \<Rightarrow> action \<Rightarrow> val list \<Rightarrow> trace \<Rightarrow> trace \<times> (err + val)" where
  "call_action imp (Method k b s p t) args tr =
     (if chainable b then
        (case b of
           UserNext name \<Rightarrow>
             (case t of
                None \<Rightarrow> (tr @ [name], Inl (TypeError ''NoneType object is not callable''))
              | Some next_method \<Rightarrow> call_action imp next_method args (tr @ [name]))
         | _ \<Rightarrow> run_body imp b args tr)
      else run_body imp b args tr)"
| "call_action imp (MethodList KMethodList items t) args tr = (tr, Inl (AttributeError ''body''))"
| "call_action imp (MethodList KBefore items t) args tr =
     (case MethodList_sorted imp items of
        Inl e \<Rightarrow> (tr, Inl e)
      | Inr sorted_items \<Rightarrow>
          (case run_bodies imp sorted_items args tr of
             (tr', Inl e) \<Rightarrow> (tr', Inl e)
           | (tr', Inr r) \<Rightarrow>
               (case t of
                  None \<Rightarrow> (tr', Inl (TypeError ''NoneType object is not callable''))
                | Some tail \<Rightarrow> call_action imp tail args tr')))"
| "call_action imp (MethodList KAfter items t) args tr =
     (case t of
        None \<Rightarrow> (tr, Inl (TypeError ''NoneType object is not callable''))
      | Some tail \<Rightarrow>
          (case call_action imp tail args tr of
             (tr', Inl e) \<Rightarrow> (tr', Inl e)
           | (tr', Inr retval) \<Rightarrow>
               (case After_sorted imp items of
                  Inl e \<Rightarrow> (tr', Inl e)
                | Inr sorted_items \<Rightarrow>
                    (case run_bodies imp sorted_items args tr' of
                       (tr'', Inl e) \<Rightarrow> (tr'', Inl e)
                     | (tr'', Inr r) \<Rightarrow> (tr'', Inr VNone)))))"
| "call_action imp NoApplicableMethods args tr = (tr, Inl (NoApplicableMethodsE args))"
| "call_action imp (AmbiguousMethods ms) args tr = (tr, Inl (AmbiguousMethodsE ms args))"

section \<open>The type engine\<close>

text \<open>
  The dictionaries of \<^verbatim>\<open>TypeEngine\<close> are association lists with distinct keys, in the
  order the keys were first stored, which is the order the spec gives the iteration over
  the registry.
\<close>

type_synonym registry = "(sig \<times> action option) list"

fun dict_set :: "('k \<times> 'v) list \<Rightarrow> 'k \<Rightarrow> 'v \<Rightarrow> ('k \<times> 'v) list" where
  "dict_set [] k v = [(k, v)]"
| "dict_set ((k', v') # d) k v = (if k' = k then (k', v) # d else (k', v') # dict_set d k v)"

record engine =
  registry :: registry
  static_cache :: registry
  cache :: registry

text \<open>\<^verbatim>\<open>RuleSet.default_action = NoApplicableMethods()\<close>\<close>

definition default_action :: "action option" where
  "default_action = Some NoApplicableMethods"

text \<open>\<^verbatim>\<open>TypeEngine.changed\<close>: \<^verbatim>\<open>generate_code\<close> resets the cache to a copy of the static cache.\<close>

definition changed :: "engine \<Rightarrow> engine" where
  "changed e = (if cache e \<noteq> static_cache e then e\<lparr>cache := static_cache e\<rparr> else e)"

text \<open>
  \<^verbatim>\<open>TypeEngine.add_method\<close>. When \<^verbatim>\<open>combine_actions\<close> raises, nothing has been
  assigned: the result \<open>Inl\<close> stands for the exception and the unchanged engine.
\<close>

definition add_method :: "implies_fn \<Rightarrow> engine \<Rightarrow> sig \<Rightarrow> action option \<Rightarrow> err + engine" where
  "add_method imp e sg action =
     (case map_of (registry e) sg of
        Some old \<Rightarrow>
          (case combine_actions imp action old of
             Inl er \<Rightarrow> Inl er
           | Inr a \<Rightarrow> Inr (changed (e\<lparr>registry := dict_set (registry e) sg a\<rparr>)))
      | None \<Rightarrow> Inr (changed (e\<lparr>registry := dict_set (registry e) sg action\<rparr>)))"

text \<open>
  The loop of the miss handler: \<^verbatim>\<open>for sig in self.registry: if types==sig or
  implies(types, sig): action = combine_actions(action, self.registry[sig])\<close>.
\<close>

fun fold_registry :: "implies_fn \<Rightarrow> sig \<Rightarrow> registry \<Rightarrow> action option \<Rightarrow> err + action option" where
  "fold_registry imp types [] action = Inr action"
| "fold_registry imp types ((sg, a) # reg) action =
     (if types = sg then
        (case combine_actions imp action a of
           Inl e \<Rightarrow> Inl e
         | Inr action' \<Rightarrow> fold_registry imp types reg action')
      else
        (case imp (sigv types) (sigv sg) of
           Inl e \<Rightarrow> Inl e
         | Inr r \<Rightarrow>
             (if truthy r then
                (case combine_actions imp action a of
                   Inl e \<Rightarrow> Inl e
                 | Inr action' \<Rightarrow> fold_registry imp types reg action')
              else fold_registry imp types reg action)))"

definition call_opt :: "implies_fn \<Rightarrow> action option \<Rightarrow> val list \<Rightarrow> trace \<Rightarrow> trace \<times> (err + val)" where
  "call_opt imp f args tr =
     (case f of
        None \<Rightarrow> (tr, Inl (TypeError ''NoneType object is not callable''))
      | Some a \<Rightarrow> call_action imp a args tr)"

text \<open>
  The generated function of a generic function: \<^verbatim>\<open>cache.get(types, callback)(*args)\<close>
  with the \<^verbatim>\<open>callback\<close> of \<^verbatim>\<open>generate_code\<close>, which fills the cache on a miss. It
  returns the engine, the trace and the result or exception of the call.
\<close>

definition callback :: "implies_fn \<Rightarrow> engine \<Rightarrow> val list \<Rightarrow> trace \<Rightarrow> engine \<times> trace \<times> (err + val)" where
  "callback imp e args tr =
     (let types = map class_of args in
      case map_of (cache e) types of
        Some f \<Rightarrow> (e, call_opt imp f args tr)
      | None \<Rightarrow>
          (case fold_registry imp types (registry e) default_action of
             Inl er \<Rightarrow> (e, tr, Inl er)
           | Inr f \<Rightarrow> (e\<lparr>cache := dict_set (cache e) types f\<rparr>, call_opt imp f args tr)))"

section \<open>The generic function implies\<close>

text \<open>
  The registry of \<^verbatim>\<open>implies\<close> when \<^verbatim>\<open>core.py\<close> has been loaded: the default rule
  that \<^verbatim>\<open>rules_for\<close> installs for the original function, then one \<^verbatim>\<open>Method\<close> for
  each \<^verbatim>\<open>when(implies, ...)\<close>, \<^verbatim>\<open>always_overrides\<close> (two rules) and
  \<^verbatim>\<open>merge_by_default\<close> in the order of the file, with the sequence number of its rule
  as precedence.
\<close>

definition core_rules :: "(sig \<times> body) list" where
  "core_rules =
    [([], ImpliesDefault),
     ([TupleC, TupleC], TupleImplies),
     ([TypeC, TypeC], IsSubclass),
     ([ClassTypeC, ClassTypeC], IsSubclass),
     ([TypeC, ClassTypeC], IsSubclass),
     ([ClassTypeC, TypeC], ClassicImpliesNew),
     ([MethodC, MethodC], MethodImplies),
     ([AroundC, MethodC], YES),
     ([MethodC, AroundC], NO),
     ([AroundC, AroundC], MethodImplies),
     ([MethodListC, MethodListC], NO),
     ([BoolC, BoolC], LambdaBoolBool),
     ([BoolC, ObjectC], LambdaBoolObject),
     ([ObjectC, BoolC], LambdaObjectBool),
     ([BeforeC, BeforeC], NO),
     ([AfterC, AfterC], NO),
     ([AroundC, BeforeC], YES),
     ([BeforeC, AroundC], NO),
     ([AroundC, AfterC], YES),
     ([AfterC, AroundC], NO),
     ([BeforeC, AfterC], YES),
     ([AfterC, BeforeC], NO),
     ([BeforeC, MethodC], YES),
     ([MethodC, BeforeC], NO),
     ([AfterC, MethodC], YES),
     ([MethodC, AfterC], NO),
     ([DispatchErrorC, DispatchErrorC], NO),
     ([MethodC, NoApplicableMethodsC], YES),
     ([NoApplicableMethodsC, MethodC], NO),
     ([AmbiguousMethodsC, MethodC], AmbiguousOverrides),
     ([MethodC, AmbiguousMethodsC], OverrideAmbiguous),
     ([AmbiguousMethodsC, AmbiguousMethodsC], NO)]"

fun number_rules :: "nat \<Rightarrow> (sig \<times> body) list \<Rightarrow> registry" where
  "number_rules n [] = []"
| "number_rules n ((sg, b) # rules) = (sg, Some (Method KMethod b sg n None)) # number_rules (Suc n) rules"

definition core_registry :: registry where
  "core_registry = number_rules 0 core_rules"

text \<open>
  The engine of \<^verbatim>\<open>implies\<close> after \<^verbatim>\<open>_snapshot_static()\<close>: the static cache is a copy
  of the registry, and so is the cache that \<^verbatim>\<open>generate_code\<close> starts from.
\<close>

definition implies_engine :: engine where
  "implies_engine = \<lparr>registry = core_registry, static_cache = core_registry, cache = core_registry\<rparr>"

text \<open>
  \<^verbatim>\<open>implies\<close> as a generic function. The first argument bounds the depth of nested
  calls of \<^verbatim>\<open>implies\<close> (by \<^verbatim>\<open>implies\<close> itself, through the miss handler,
  \<^verbatim>\<open>combine_actions\<close> and the functions registered on it); at depth 0 the call fails
  as a call beyond Python's recursion limit does. The entries a call adds to the cache
  are dropped: they hold what the miss handler computes from the same registry.
\<close>

primrec implies :: "nat \<Rightarrow> val \<Rightarrow> val \<Rightarrow> err + val" where
  "implies 0 s1 s2 = Inl RecursionLimit"
| "implies (Suc n) s1 s2 = snd (snd (callback (implies n) implies_engine [s1, s2] []))"

section \<open>Rule sets\<close>

text \<open>
  The action type of a rule is \<^verbatim>\<open>None\<close> (for \<^verbatim>\<open>when\<close>: the rule set's
  \<^verbatim>\<open>default_actiontype\<close>, the class \<^verbatim>\<open>Method\<close>, is taken) or the \<^verbatim>\<open>make\<close>
  classmethod of an action class.
\<close>

datatype atype = MethodT | AroundT | MethodListT | BeforeT | AfterT

datatype rule = Rule body sig "atype option"

datatype actiondef = ActionDef atype body sig nat

text \<open>
  \<^verbatim>\<open>atype(body, sig, seq)\<close> as \<^verbatim>\<open>Engine.actions_changed\<close> calls it: the constructor of
  \<^verbatim>\<open>Method\<close>, \<^verbatim>\<open>Method.make\<close> (inherited by \<^verbatim>\<open>Around\<close>) or \<^verbatim>\<open>MethodList.make\<close>
  (inherited by \<^verbatim>\<open>Before\<close> and \<^verbatim>\<open>After\<close>).
\<close>

fun make_action :: "atype \<Rightarrow> body \<Rightarrow> sig \<Rightarrow> nat \<Rightarrow> action" where
  "make_action MethodT b sg n = Method KMethod b sg n None"
| "make_action AroundT b sg n = Method KAround b sg n None"
| "make_action MethodListT b sg n = MethodList KMethodList [(sg, n, b)] None"
| "make_action BeforeT b sg n = MethodList KBefore [(sg, n, b)] None"
| "make_action AfterT b sg n = MethodList KAfter [(sg, n, b)] None"

text \<open>
  A rule set. The frozenset of action definitions of a rule is a list: it has one element,
  since \<^verbatim>\<open>predicate_signatures\<close> yields the predicate itself. Listeners are named by
  numbers; a notification is the call \<^verbatim>\<open>listener.actions_changed(added, removed)\<close>.
\<close>

record ruleset =
  rules :: "rule list"
  actiondefs :: "rule \<rightharpoonup> nat \<times> actiondef list"
  counter :: nat
  listeners :: "nat list"

type_synonym notification = "nat \<times> actiondef list \<times> actiondef list"

definition RuleSet_init :: ruleset where
  "RuleSet_init = \<lparr>rules = [], actiondefs = Map.empty, counter = 0, listeners = []\<rparr>"

fun actions_for :: "rule \<Rightarrow> nat \<Rightarrow> actiondef list" where
  "actions_for (Rule b predicate actiontype) sequence =
     [ActionDef (case actiontype of None \<Rightarrow> MethodT | Some t \<Rightarrow> t) b predicate sequence]"

definition notify :: "ruleset \<Rightarrow> actiondef list \<Rightarrow> actiondef list \<Rightarrow> notification list" where
  "notify rs added removed = map (\<lambda>l. (l, added, removed)) (listeners rs)"

definition RuleSet_add :: "ruleset \<Rightarrow> rule \<Rightarrow> ruleset \<times> notification list" where
  "RuleSet_add rs r =
     (let sequence = counter rs;
          defs = actions_for r sequence;
          rs' = rs\<lparr>counter := sequence + 1,
                   rules := rules rs @ [r],
                   actiondefs := (actiondefs rs)(r \<mapsto> (sequence, defs))\<rparr>
      in (rs', notify rs' defs []))"

text \<open>
  \<^verbatim>\<open>RuleSet.remove\<close> returns the rule set as the call leaves it, the notifications it
  made, and the exception it raised, if any: \<^verbatim>\<open>self.actiondefs.pop(rule)\<close> raises
  KeyError, \<^verbatim>\<open>self.rules.remove(rule)\<close> raises ValueError.
\<close>

definition RuleSet_remove :: "ruleset \<Rightarrow> rule \<Rightarrow> ruleset \<times> notification list \<times> err option" where
  "RuleSet_remove rs r =
     (case actiondefs rs r of
        None \<Rightarrow> (rs, [], Some KeyError)
      | Some (sequence, defs) \<Rightarrow>
          (let rs1 = rs\<lparr>actiondefs := (actiondefs rs)(r := None)\<rparr> in
           case list_remove (rules rs1) r of
             Inl e \<Rightarrow> (rs1, [], Some e)
           | Inr rules' \<Rightarrow>
               (let rs2 = rs1\<lparr>rules := rules'\<rparr> in (rs2, notify rs2 [] defs, None))))"

text \<open>A sequence of calls of \<^verbatim>\<open>add\<close> and \<^verbatim>\<open>remove\<close> on a rule set.\<close>

datatype op = Add rule | Remove rule

fun RuleSet_run :: "ruleset \<Rightarrow> op list \<Rightarrow> ruleset" where
  "RuleSet_run rs [] = rs"
| "RuleSet_run rs (Add r # ops) = RuleSet_run (fst (RuleSet_add rs r)) ops"
| "RuleSet_run rs (Remove r # ops) = RuleSet_run (fst (RuleSet_remove rs r)) ops"

section \<open>A generic function: its rule set and its engine\<close>

record dispatching =
  d_rules :: ruleset
  d_engine :: engine

text \<open>
  \<^verbatim>\<open>Dispatching(func)\<close> as \<^verbatim>\<open>abstract()\<close> creates it: an empty rule set, and a
  \<^verbatim>\<open>TypeEngine\<close> with empty dictionaries that subscribes to it as listener 0.
\<close>

definition Dispatching_init :: dispatching where
  "Dispatching_init =
     \<lparr>d_rules = RuleSet_init\<lparr>listeners := [0]\<rparr>,
      d_engine = \<lparr>registry = [], static_cache = [], cache = []\<rparr>\<rparr>"

text \<open>
  The loop of \<^verbatim>\<open>Engine.actions_changed\<close> over \<^verbatim>\<open>added\<close>. It returns the engine as the
  loop leaves it and the exception that ended it, if any.
\<close>

fun add_all :: "implies_fn \<Rightarrow> engine \<Rightarrow> actiondef list \<Rightarrow> engine \<times> err option" where
  "add_all imp e [] = (e, None)"
| "add_all imp e (ActionDef t b sg sq # ds) =
     (case add_method imp e sg (Some (make_action t b sg sq)) of
        Inl er \<Rightarrow> (e, Some er)
      | Inr e' \<Rightarrow> add_all imp e' ds)"

text \<open>
  \<^verbatim>\<open>full_reset\<close>: the registry is cleared, and the action definitions that iterating
  the rule set yields are added again, rule by rule; a rule without an entry in
  \<^verbatim>\<open>actiondefs\<close> ends the iteration with KeyError.
\<close>

fun reset_loop :: "implies_fn \<Rightarrow> (rule \<rightharpoonup> nat \<times> actiondef list) \<Rightarrow> engine \<Rightarrow> rule list
    \<Rightarrow> engine \<times> err option" where
  "reset_loop imp defs e [] = (e, None)"
| "reset_loop imp defs e (r # rs) =
     (case defs r of
        None \<Rightarrow> (e, Some KeyError)
      | Some (sequence, ds) \<Rightarrow>
          (case add_all imp e ds of
             (e', Some er) \<Rightarrow> (e', Some er)
           | (e', None) \<Rightarrow> reset_loop imp defs e' rs))"

definition full_reset :: "implies_fn \<Rightarrow> ruleset \<Rightarrow> engine \<Rightarrow> engine \<times> err option" where
  "full_reset imp rs e = reset_loop imp (actiondefs rs) (e\<lparr>registry := []\<rparr>) (rules rs)"

definition actions_changed :: "implies_fn \<Rightarrow> ruleset \<Rightarrow> engine \<Rightarrow> actiondef list \<Rightarrow> actiondef list
    \<Rightarrow> engine \<times> err option" where
  "actions_changed imp rs e added removed =
     (if removed \<noteq> [] then full_reset imp rs e else add_all imp e added)"

fun deliver :: "implies_fn \<Rightarrow> ruleset \<Rightarrow> engine \<Rightarrow> notification list \<Rightarrow> engine \<times> err option" where
  "deliver imp rs e [] = (e, None)"
| "deliver imp rs e ((l, added, removed) # ns) =
     (case actions_changed imp rs e added removed of
        (e', Some er) \<Rightarrow> (e', Some er)
      | (e', None) \<Rightarrow> deliver imp rs e' ns)"

text \<open>\<^verbatim>\<open>rules_for(f).add(rule)\<close> on a generic function, with the notification of its engine.\<close>

definition gf_add :: "implies_fn \<Rightarrow> dispatching \<Rightarrow> rule \<Rightarrow> dispatching \<times> err option" where
  "gf_add imp d r =
     (let (rs', ns) = RuleSet_add (d_rules d) r;
          (e', er) = deliver imp rs' (d_engine d) ns
      in (\<lparr>d_rules = rs', d_engine = e'\<rparr>, er))"

fun gf_add_all :: "implies_fn \<Rightarrow> dispatching \<Rightarrow> rule list \<Rightarrow> dispatching \<times> err option" where
  "gf_add_all imp d [] = (d, None)"
| "gf_add_all imp d (r # rs) =
     (case gf_add imp d r of
        (d', Some er) \<Rightarrow> (d', Some er)
      | (d', None) \<Rightarrow> gf_add_all imp d' rs)"

text \<open>A call of the generic function: the trace of the bodies run and the result or exception.\<close>

definition gf_call :: "implies_fn \<Rightarrow> dispatching \<Rightarrow> val list \<Rightarrow> trace \<times> (err + val)" where
  "gf_call imp d args = snd (callback imp (d_engine d) args [])"

text \<open>
  A sequence of calls \<^verbatim>\<open>add_method(sig, action)\<close> on an engine; a call that raises leaves
  the engine as it was.
\<close>

fun add_methods :: "implies_fn \<Rightarrow> engine \<Rightarrow> (sig \<times> action) list \<Rightarrow> engine" where
  "add_methods imp e [] = e"
| "add_methods imp e ((sg, a) # calls) =
     (case add_method imp e sg (Some a) of
        Inl er \<Rightarrow> add_methods imp e calls
      | Inr e' \<Rightarrow> add_methods imp e' calls)"

text \<open>
  The miss handler's loop over the entries of a registry that apply: the proofs split the
  loop over the registry into the choice of these entries and this loop.
\<close>

fun fold_applicable :: "implies_fn \<Rightarrow> registry \<Rightarrow> action option \<Rightarrow> err + action option" where
  "fold_applicable imp [] action = Inr action"
| "fold_applicable imp ((sg, a) # reg) action =
     (case combine_actions imp action a of
        Inl e \<Rightarrow> Inl e
      | Inr action' \<Rightarrow> fold_applicable imp reg action')"

text \<open>
  What \<^verbatim>\<open>implies\<close> computes on two classes and on two signatures, as the lemmas
  \<open>implies_cls\<close> and \<open>implies_sig\<close> below show: \<^verbatim>\<open>issubclass\<close>, but for a classic
  class against a new-style one (\<^verbatim>\<open>classic_implies_new\<close>); and \<^verbatim>\<open>tuple_implies\<close>
  on tuples of classes.
\<close>

definition cls_implies :: "cls \<Rightarrow> cls \<Rightarrow> bool" where
  "cls_implies c1 c2 =
     (if is_classic c1 \<and> \<not> is_classic c2 then c2 = ObjectC \<or> c2 = InstanceTypeC
      else issubclass c1 c2)"

fun sig_implies :: "sig \<Rightarrow> sig \<Rightarrow> bool" where
  "sig_implies s [] = True"
| "sig_implies [] (b # t) = False"
| "sig_implies (a # s) (b # t) = (cls_implies a b \<and> sig_implies s t)"

text \<open>
  One case dominates another when its signature implies the other's and is not implied by
  it; the maximal cases of a list are those that no case of the list dominates.
\<close>

definition dominates :: "sig \<times> body \<Rightarrow> sig \<times> body \<Rightarrow> bool" where
  "dominates x y = (sig_implies (fst x) (fst y) \<and> \<not> sig_implies (fst y) (fst x))"



text \<open>
  What \<^verbatim>\<open>implies\<close> computes on two actions, as the lemma \<open>implies_flat\<close> below shows:
  the order that \<^verbatim>\<open>always_overrides\<close> and \<^verbatim>\<open>merge_by_default\<close> declare between the
  classes, the signatures of two actions of the same class \<^verbatim>\<open>Method\<close> or
  \<^verbatim>\<open>Around\<close>, and \<^verbatim>\<open>ambiguous_overrides\<close> and \<^verbatim>\<open>override_ambiguous\<close> on the
  methods of an \<^verbatim>\<open>AmbiguousMethods\<close>.
\<close>

fun act_implies :: "action \<Rightarrow> action \<Rightarrow> bool" where
  "act_implies (Method k1 b1 s1 p1 t1) (Method k2 b2 s2 p2 t2) =
     (if k1 = k2 then sig_implies s1 s2 else k1 = KAround)"
| "act_implies (Method k b s p t) (MethodList lk items t') = (k = KAround)"
| "act_implies (MethodList lk items t') (Method k b s p t) = (k = KMethod)"
| "act_implies (MethodList lk1 items1 t1) (MethodList lk2 items2 t2) = (lk1 = KBefore \<and> lk2 = KAfter)"
| "act_implies NoApplicableMethods a = False"
| "act_implies (AmbiguousMethods ms) NoApplicableMethods = False"
| "act_implies a NoApplicableMethods = True"
| "act_implies (AmbiguousMethods ms) (AmbiguousMethods ms') = False"
| "act_implies (AmbiguousMethods ms) a = (\<exists>m\<in>set ms. act_implies m a)"
| "act_implies a (AmbiguousMethods ms) = (\<forall>m\<in>set ms. act_implies a m)"

fun simple :: "action \<Rightarrow> bool" where
  "simple (Method k b s p t) = True"
| "simple (MethodList lk items t) = (lk \<noteq> KMethodList)"
| "simple NoApplicableMethods = True"
| "simple (AmbiguousMethods ms) = False"

text \<open>
  The actions that rules of the kinds \<^verbatim>\<open>when\<close>, \<^verbatim>\<open>around\<close>, \<^verbatim>\<open>before\<close> and
  \<^verbatim>\<open>after\<close> lead to (\<open>std\<close>): instances of \<^verbatim>\<open>Method\<close> and \<^verbatim>\<open>Around\<close>, of
  \<^verbatim>\<open>Before\<close> and \<^verbatim>\<open>After\<close> (not of \<^verbatim>\<open>MethodList\<close> itself), each with a tail of
  this kind or none, \<^verbatim>\<open>NoApplicableMethods\<close>, and an \<^verbatim>\<open>AmbiguousMethods\<close> of
  \<^verbatim>\<open>Method\<close>, \<^verbatim>\<open>Around\<close> and \<^verbatim>\<open>NoApplicableMethods\<close> instances. Two actions are
  \<open>mergeable\<close> when \<^verbatim>\<open>merge\<close> accepts them: both are method lists of one class, or
  neither is a method list.
\<close>

fun primary :: "action \<Rightarrow> bool" where
  "primary (Method k b s p t) = True"
| "primary NoApplicableMethods = True"
| "primary a = False"

fun flat :: "action \<Rightarrow> bool" where
  "flat (AmbiguousMethods ms) = list_all primary ms"
| "flat a = simple a"

fun std :: "action \<Rightarrow> bool" where
  "std (Method k b s p t) = (case t of None \<Rightarrow> True | Some a \<Rightarrow> std a)"
| "std (MethodList lk items t) = (lk \<noteq> KMethodList \<and> (case t of None \<Rightarrow> True | Some a \<Rightarrow> std a))"
| "std NoApplicableMethods = True"
| "std (AmbiguousMethods ms) = list_all primary ms"

fun mergeable :: "action \<Rightarrow> action \<Rightarrow> bool" where
  "mergeable (MethodList lk items t) (MethodList lk' items' t') = (lk' = lk)"
| "mergeable (MethodList lk items t) other = False"
| "mergeable a (MethodList lk' items' t') = False"
| "mergeable a other = True"

definition opt_std :: "action option \<Rightarrow> bool" where
  "opt_std x = (case x of None \<Rightarrow> True | Some a \<Rightarrow> std a)"




section \<open>What implies computes\<close>

declare implies.simps [simp del]

lemma core_registry_eq:
  "core_registry =
    [([], Some (Method KMethod ImpliesDefault [] 0 None)),
     ([TupleC, TupleC], Some (Method KMethod TupleImplies [TupleC, TupleC] 1 None)),
     ([TypeC, TypeC], Some (Method KMethod IsSubclass [TypeC, TypeC] 2 None)),
     ([ClassTypeC, ClassTypeC], Some (Method KMethod IsSubclass [ClassTypeC, ClassTypeC] 3 None)),
     ([TypeC, ClassTypeC], Some (Method KMethod IsSubclass [TypeC, ClassTypeC] 4 None)),
     ([ClassTypeC, TypeC], Some (Method KMethod ClassicImpliesNew [ClassTypeC, TypeC] 5 None)),
     ([MethodC, MethodC], Some (Method KMethod MethodImplies [MethodC, MethodC] 6 None)),
     ([AroundC, MethodC], Some (Method KMethod YES [AroundC, MethodC] 7 None)),
     ([MethodC, AroundC], Some (Method KMethod NO [MethodC, AroundC] 8 None)),
     ([AroundC, AroundC], Some (Method KMethod MethodImplies [AroundC, AroundC] 9 None)),
     ([MethodListC, MethodListC], Some (Method KMethod NO [MethodListC, MethodListC] 10 None)),
     ([BoolC, BoolC], Some (Method KMethod LambdaBoolBool [BoolC, BoolC] 11 None)),
     ([BoolC, ObjectC], Some (Method KMethod LambdaBoolObject [BoolC, ObjectC] 12 None)),
     ([ObjectC, BoolC], Some (Method KMethod LambdaObjectBool [ObjectC, BoolC] 13 None)),
     ([BeforeC, BeforeC], Some (Method KMethod NO [BeforeC, BeforeC] 14 None)),
     ([AfterC, AfterC], Some (Method KMethod NO [AfterC, AfterC] 15 None)),
     ([AroundC, BeforeC], Some (Method KMethod YES [AroundC, BeforeC] 16 None)),
     ([BeforeC, AroundC], Some (Method KMethod NO [BeforeC, AroundC] 17 None)),
     ([AroundC, AfterC], Some (Method KMethod YES [AroundC, AfterC] 18 None)),
     ([AfterC, AroundC], Some (Method KMethod NO [AfterC, AroundC] 19 None)),
     ([BeforeC, AfterC], Some (Method KMethod YES [BeforeC, AfterC] 20 None)),
     ([AfterC, BeforeC], Some (Method KMethod NO [AfterC, BeforeC] 21 None)),
     ([BeforeC, MethodC], Some (Method KMethod YES [BeforeC, MethodC] 22 None)),
     ([MethodC, BeforeC], Some (Method KMethod NO [MethodC, BeforeC] 23 None)),
     ([AfterC, MethodC], Some (Method KMethod YES [AfterC, MethodC] 24 None)),
     ([MethodC, AfterC], Some (Method KMethod NO [MethodC, AfterC] 25 None)),
     ([DispatchErrorC, DispatchErrorC], Some (Method KMethod NO [DispatchErrorC, DispatchErrorC] 26 None)),
     ([MethodC, NoApplicableMethodsC], Some (Method KMethod YES [MethodC, NoApplicableMethodsC] 27 None)),
     ([NoApplicableMethodsC, MethodC], Some (Method KMethod NO [NoApplicableMethodsC, MethodC] 28 None)),
     ([AmbiguousMethodsC, MethodC], Some (Method KMethod AmbiguousOverrides [AmbiguousMethodsC, MethodC] 29 None)),
     ([MethodC, AmbiguousMethodsC], Some (Method KMethod OverrideAmbiguous [MethodC, AmbiguousMethodsC] 30 None)),
     ([AmbiguousMethodsC, AmbiguousMethodsC], Some (Method KMethod NO [AmbiguousMethodsC, AmbiguousMethodsC] 31 None))]"
  by (simp add: core_registry_def core_rules_def eval_nat_numeral)

text \<open>A call of implies whose pair of argument classes is a key of the cache.\<close>

lemma implies_hit:
  "map_of core_registry [class_of s1, class_of s2] = Some (Some (Method k b sg p t)) \<Longrightarrow>
   \<not> chainable b \<Longrightarrow>
   implies (Suc n) s1 s2 = snd (run_body (implies n) b [s1, s2] [])"
  by (simp add: implies.simps callback_def implies_engine_def call_opt_def)

lemma implies_cls:
  "implies (Suc n) (VCls a) (VCls b) = Inr (VBool (cls_implies a b))"
  by (cases "is_classic a"; cases "is_classic b")
     (simp_all add: implies_hit[where b=IsSubclass] implies_hit[where b=ClassicImpliesNew]
       core_registry_eq cls_implies_def classic_implies_new_def)

lemma all_implies_cls:
  "length t \<le> length s \<Longrightarrow>
   all_implies (implies (Suc n)) (zip (map VCls s) (map VCls t)) = Inr (VBool (sig_implies s t))"
  by (induction s t rule: sig_implies.induct) (simp_all add: implies_cls)

lemma sig_implies_length: "sig_implies s t \<Longrightarrow> length t \<le> length s"
  by (induction s t rule: sig_implies.induct) simp_all

lemma implies_sig:
  "implies (Suc (Suc n)) (sigv s) (sigv t) = Inr (VBool (sig_implies s t))"
proof -
  have "implies (Suc (Suc n)) (sigv s) (sigv t) = tuple_implies (implies (Suc n)) (sigv s) (sigv t)"
    by (simp add: implies_hit[where b=TupleImplies] core_registry_eq sigv_def)
  also have "\<dots> = Inr (VBool (sig_implies s t))"
    using all_implies_cls[of t s n] sig_implies_length[of s t]
    by (auto simp: sigv_def)
  finally show ?thesis .
qed


lemma issubclass_refl [simp]: "issubclass c c"
  by (cases c) (simp_all add: issubclass_def)

lemma cls_implies_refl [simp]: "cls_implies c c"
  by (simp add: cls_implies_def)

lemma sig_implies_refl [simp]: "sig_implies s s"
  by (induction s) simp_all

lemma cls_implies_object [simp]: "cls_implies c ObjectC"
  by (cases c) (simp_all add: cls_implies_def issubclass_def)

lemma cls_implies_bool [simp]: "cls_implies c BoolC = (c = BoolC)"
  by (cases c) (simp_all add: cls_implies_def issubclass_def)

lemma bool_cls_implies [simp]: "cls_implies BoolC c = (c = BoolC \<or> c = IntC \<or> c = ObjectC)"
  by (auto simp: cls_implies_def issubclass_def)

lemma class_of_not_object [simp]: "class_of x \<noteq> ObjectC"
proof (cases x)
  case (VAct a)
  then show ?thesis
    by (cases a rule: action_class.cases) simp_all
qed simp_all

lemma fold_registry_applicable:
  "fold_registry (implies (Suc (Suc n))) types reg action =
   fold_applicable (implies (Suc (Suc n))) (filter (\<lambda>(sg, a). sig_implies types sg) reg) action"
proof (induction reg arbitrary: action)
  case Nil
  then show ?case by simp
next
  case (Cons entry reg)
  obtain sg a where entry: "entry = (sg, a)" by (cases entry)
  show ?case
  proof (cases "sg = types")
    case True
    show ?thesis
      unfolding entry True by (simp add: Cons.IH split: sum.splits)
  next
    case False
    then have "types \<noteq> sg" by simp
    then show ?thesis
      unfolding entry by (simp add: implies_sig Cons.IH split: sum.splits)
  qed
qed

lemma implies_miss:
  "map_of core_registry [class_of s1, class_of s2] = None \<Longrightarrow>
   implies (Suc (Suc (Suc n))) s1 s2 =
     (case fold_applicable (implies (Suc (Suc n)))
             (filter (\<lambda>(sg, a). sig_implies [class_of s1, class_of s2] sg) core_registry)
             default_action of
        Inl e \<Rightarrow> Inl e
      | Inr f \<Rightarrow> snd (call_opt (implies (Suc (Suc n))) f [s1, s2] []))"
  by (simp add: implies.simps(2)[of "Suc (Suc n)"] callback_def implies_engine_def
      fold_registry_applicable split: sum.splits)

text \<open>implies on the actions that the miss handler of implies combines.\<close>

lemma implies_default_method [simp]:
  "implies (Suc n) (VAct NoApplicableMethods) (VAct (Method KMethod b sg p t)) = Inr (VBool False)"
  "implies (Suc n) (VAct (Method KMethod b sg p t)) (VAct NoApplicableMethods) = Inr (VBool True)"
  by (simp_all add: implies_hit[where b=NO] implies_hit[where b=YES] core_registry_eq)

lemma implies_method_method [simp]:
  "implies (Suc (Suc (Suc n))) (VAct (Method KMethod b1 s1 p1 t1)) (VAct (Method KMethod b2 s2 p2 t2))
     = Inr (VBool (sig_implies s1 s2))"
  by (simp add: implies_hit[where b=MethodImplies] core_registry_eq implies_sig)

lemma implies_bool_other:
  assumes "class_of x \<noteq> BoolC"
  shows "implies (Suc (Suc (Suc (Suc n)))) (VBool b) x = Inr (VBool (\<not> b))"
proof -
  have miss: "map_of core_registry [class_of (VBool b), class_of x] = None"
    using assms by (simp add: core_registry_eq)
  have app: "filter (\<lambda>(sg, a). sig_implies [class_of (VBool b), class_of x] sg) core_registry =
      [([], Some (Method KMethod ImpliesDefault [] 0 None)),
       ([BoolC, ObjectC], Some (Method KMethod LambdaBoolObject [BoolC, ObjectC] 12 None))]"
    using assms by (simp add: core_registry_eq)
  show ?thesis
    unfolding implies_miss[OF miss] app
    by (simp add: default_action_def call_opt_def)
qed

lemma implies_other_bool:
  assumes "class_of x \<noteq> BoolC"
  shows "implies (Suc (Suc (Suc (Suc n)))) x (VBool b) = Inr (VBool b)"
proof -
  have miss: "map_of core_registry [class_of x, class_of (VBool b)] = None"
    using assms by (simp add: core_registry_eq)
  have app: "filter (\<lambda>(sg, a). sig_implies [class_of x, class_of (VBool b)] sg) core_registry =
      [([], Some (Method KMethod ImpliesDefault [] 0 None)),
       ([ObjectC, BoolC], Some (Method KMethod LambdaObjectBool [ObjectC, BoolC] 13 None))]"
    using assms by (simp add: core_registry_eq)
  show ?thesis
    unfolding implies_miss[OF miss] app
    by (simp add: default_action_def call_opt_def)
qed

lemma implies_bool_bool:
  "implies (Suc n) (VBool b1) (VBool b2) = Inr (VBool (b2 \<or> \<not> b1))"
  by (simp add: implies_hit[where b=LambdaBoolBool] core_registry_eq)

lemma implies_same_kind:
  "implies (Suc (Suc (Suc n))) (VAct (Method k b1 s1 p1 t1)) (VAct (Method k b2 s2 p2 t2))
     = Inr (VBool (sig_implies s1 s2))"
  by (cases k) (simp_all add: implies_hit[where b=MethodImplies] core_registry_eq implies_sig)


lemma implies_ambiguous_ambiguous:
  "implies (Suc n) (VAct (AmbiguousMethods ms1)) (VAct (AmbiguousMethods ms2)) = Inr (VBool False)"
  by (simp add: implies_hit[where b=NO] core_registry_eq)

lemma implies_noapp_noapp:
  "implies (Suc (Suc (Suc (Suc n)))) (VAct NoApplicableMethods) (VAct NoApplicableMethods) = Inr (VBool False)"
proof -
  have miss: "map_of core_registry [class_of (VAct NoApplicableMethods), class_of (VAct NoApplicableMethods)] = None"
    by (simp add: core_registry_eq)
  have app: "filter (\<lambda>(sg, a). sig_implies [class_of (VAct NoApplicableMethods), class_of (VAct NoApplicableMethods)] sg) core_registry =
      [([], Some (Method KMethod ImpliesDefault [] 0 None)),
       ([DispatchErrorC, DispatchErrorC], Some (Method KMethod NO [DispatchErrorC, DispatchErrorC] 26 None))]"
    by (simp add: core_registry_eq cls_implies_def issubclass_def)
  show ?thesis
    unfolding implies_miss[OF miss] app
    by (simp add: default_action_def call_opt_def)
qed

lemma sig_implies_nth:
  "sig_implies s t \<longleftrightarrow> length t \<le> length s \<and> (\<forall>i<length t. cls_implies (s ! i) (t ! i))"
proof (induction s t rule: sig_implies.induct)
  case (3 a s b t)
  then show ?case by (auto simp: less_Suc_eq_0_disj)
qed simp_all

lemma implies_tuple_tuple:
  "implies (Suc n) (VTuple xs) (VTuple ys) =
     (if length ys > length xs then Inr (VBool False) else all_implies (implies n) (zip xs ys))"
  by (simp add: implies_hit[where b=TupleImplies] core_registry_eq)


lemma implies_noapp_ambiguous:
  "implies (Suc (Suc (Suc (Suc n)))) (VAct NoApplicableMethods) (VAct (AmbiguousMethods ms)) = Inr (VBool False)"
  "implies (Suc (Suc (Suc (Suc n)))) (VAct (AmbiguousMethods ms)) (VAct NoApplicableMethods) = Inr (VBool False)"
proof -
  have miss1: "map_of core_registry [class_of (VAct NoApplicableMethods), class_of (VAct (AmbiguousMethods ms))] = None"
    by (simp add: core_registry_eq)
  have app1: "filter (\<lambda>(sg, a). sig_implies [class_of (VAct NoApplicableMethods), class_of (VAct (AmbiguousMethods ms))] sg) core_registry =
      [([], Some (Method KMethod ImpliesDefault [] 0 None)),
       ([DispatchErrorC, DispatchErrorC], Some (Method KMethod NO [DispatchErrorC, DispatchErrorC] 26 None))]"
    by (simp add: core_registry_eq cls_implies_def issubclass_def)
  show "implies (Suc (Suc (Suc (Suc n)))) (VAct NoApplicableMethods) (VAct (AmbiguousMethods ms)) = Inr (VBool False)"
    unfolding implies_miss[OF miss1] app1
    by (simp add: default_action_def call_opt_def)
  have miss2: "map_of core_registry [class_of (VAct (AmbiguousMethods ms)), class_of (VAct NoApplicableMethods)] = None"
    by (simp add: core_registry_eq)
  have app2: "filter (\<lambda>(sg, a). sig_implies [class_of (VAct (AmbiguousMethods ms)), class_of (VAct NoApplicableMethods)] sg) core_registry =
      [([], Some (Method KMethod ImpliesDefault [] 0 None)),
       ([DispatchErrorC, DispatchErrorC], Some (Method KMethod NO [DispatchErrorC, DispatchErrorC] 26 None))]"
    by (simp add: core_registry_eq cls_implies_def issubclass_def)
  show "implies (Suc (Suc (Suc (Suc n)))) (VAct (AmbiguousMethods ms)) (VAct NoApplicableMethods) = Inr (VBool False)"
    unfolding implies_miss[OF miss2] app2
    by (simp add: default_action_def call_opt_def)
qed


lemma implies_other_noapp:
  assumes "class_of s1 \<in> {AroundC, BeforeC, AfterC}" "class_of s2 = NoApplicableMethodsC"
  shows "implies (Suc (Suc (Suc (Suc n)))) s1 s2 = Inr (VBool True)"
proof -
  have miss: "map_of core_registry [class_of s1, class_of s2] = None"
    using assms by (auto simp: core_registry_eq)
  have app: "filter (\<lambda>(sg, a). sig_implies [class_of s1, class_of s2] sg) core_registry =
      [([], Some (Method KMethod ImpliesDefault [] 0 None)),
       ([MethodC, NoApplicableMethodsC], Some (Method KMethod YES [MethodC, NoApplicableMethodsC] 27 None))]"
    using assms by (auto simp: core_registry_eq cls_implies_def issubclass_def)
  show ?thesis
    unfolding implies_miss[OF miss] app
    by (simp add: default_action_def call_opt_def)
qed

lemma implies_noapp_other:
  assumes "class_of s1 = NoApplicableMethodsC" "class_of s2 \<in> {AroundC, BeforeC, AfterC}"
  shows "implies (Suc (Suc (Suc (Suc n)))) s1 s2 = Inr (VBool False)"
proof -
  have miss: "map_of core_registry [class_of s1, class_of s2] = None"
    using assms by (auto simp: core_registry_eq)
  have app: "filter (\<lambda>(sg, a). sig_implies [class_of s1, class_of s2] sg) core_registry =
      [([], Some (Method KMethod ImpliesDefault [] 0 None)),
       ([NoApplicableMethodsC, MethodC], Some (Method KMethod NO [NoApplicableMethodsC, MethodC] 28 None))]"
    using assms by (auto simp: core_registry_eq cls_implies_def issubclass_def)
  show ?thesis
    unfolding implies_miss[OF miss] app
    by (simp add: default_action_def call_opt_def)
qed

lemma implies_simple:
  assumes "simple a1" "simple a2"
  shows "implies (Suc (Suc (Suc (Suc n)))) (VAct a1) (VAct a2) = Inr (VBool (act_implies a1 a2))"
proof (cases a1)
  case m1: (Method k1 b1 s1 p1 t1)
  show ?thesis
  proof (cases a2)
    case (Method k2 b2 s2 p2 t2)
    then show ?thesis using m1
      by (cases k1; cases k2)
         (simp_all add: implies_same_kind implies_hit[where b=YES] implies_hit[where b=NO]
           core_registry_eq)
  next
    case (MethodList lk items t')
    then show ?thesis using m1 assms(2)
      by (cases k1; cases lk)
         (simp_all add: implies_hit[where b=YES] implies_hit[where b=NO] core_registry_eq)
  next
    case NoApplicableMethods
    then show ?thesis using m1
      by (cases k1) (simp_all add: implies_other_noapp)
  next
    case (AmbiguousMethods ms)
    then show ?thesis using assms(2) by simp
  qed
next
  case l1: (MethodList lk1 items1 t1)
  show ?thesis
  proof (cases a2)
    case (Method k b s p t)
    then show ?thesis using l1 assms(1)
      by (cases k; cases lk1)
         (simp_all add: implies_hit[where b=YES] implies_hit[where b=NO] core_registry_eq)
  next
    case (MethodList lk2 items2 t2)
    then show ?thesis using l1 assms
      by (cases lk1; cases lk2)
         (simp_all add: implies_hit[where b=YES] implies_hit[where b=NO] core_registry_eq)
  next
    case NoApplicableMethods
    then show ?thesis using l1 assms(1)
      by (cases lk1) (simp_all add: implies_other_noapp)
  next
    case (AmbiguousMethods ms)
    then show ?thesis using assms(2) by simp
  qed
next
  case n1: NoApplicableMethods
  show ?thesis
  proof (cases a2)
    case (Method k b s p t)
    then show ?thesis using n1
      by (cases k) (simp_all add: implies_noapp_other)
  next
    case (MethodList lk items t)
    then show ?thesis using n1 assms(2)
      by (cases lk) (simp_all add: implies_noapp_other)
  next
    case NoApplicableMethods
    then show ?thesis using n1 by (simp add: implies_noapp_noapp)
  next
    case (AmbiguousMethods ms)
    then show ?thesis using assms(2) by simp
  qed
next
  case (AmbiguousMethods ms)
  then show ?thesis using assms(1) by simp
qed

lemma primary_simple: "primary m \<Longrightarrow> simple m"
  by (cases m) simp_all

lemma std_flat: "std a \<Longrightarrow> flat a"
  by (cases a) simp_all

lemma any_implies_simple:
  "list_all primary ms \<Longrightarrow> simple x \<Longrightarrow>
   any_implies (implies (Suc (Suc (Suc (Suc n))))) ms (VAct x) = Inr (VBool (\<exists>m\<in>set ms. act_implies m x))"
  by (induction ms) (auto simp: implies_simple primary_simple)

lemma implies_all_simple:
  "list_all primary ms \<Longrightarrow> simple x \<Longrightarrow>
   implies_all (implies (Suc (Suc (Suc (Suc n))))) (VAct x) ms = Inr (VBool (\<forall>m\<in>set ms. act_implies x m))"
  by (induction ms) (auto simp: implies_simple primary_simple)

lemma implies_ambiguous_other:
  assumes "class_of s1 = AmbiguousMethodsC" "class_of s2 \<in> {AroundC, BeforeC, AfterC}"
  shows "implies (Suc (Suc (Suc (Suc n)))) s1 s2 = ambiguous_overrides (implies (Suc (Suc (Suc n)))) s1 s2"
proof -
  have miss: "map_of core_registry [class_of s1, class_of s2] = None"
    using assms by (auto simp: core_registry_eq)
  have app: "filter (\<lambda>(sg, a). sig_implies [class_of s1, class_of s2] sg) core_registry =
      [([], Some (Method KMethod ImpliesDefault [] 0 None)),
       ([AmbiguousMethodsC, MethodC], Some (Method KMethod AmbiguousOverrides [AmbiguousMethodsC, MethodC] 29 None))]"
    using assms by (auto simp: core_registry_eq cls_implies_def issubclass_def)
  show ?thesis
    unfolding implies_miss[OF miss] app
    by (simp add: default_action_def call_opt_def)
qed

lemma implies_other_ambiguous:
  assumes "class_of s1 \<in> {AroundC, BeforeC, AfterC}" "class_of s2 = AmbiguousMethodsC"
  shows "implies (Suc (Suc (Suc (Suc n)))) s1 s2 = override_ambiguous (implies (Suc (Suc (Suc n)))) s1 s2"
proof -
  have miss: "map_of core_registry [class_of s1, class_of s2] = None"
    using assms by (auto simp: core_registry_eq)
  have app: "filter (\<lambda>(sg, a). sig_implies [class_of s1, class_of s2] sg) core_registry =
      [([], Some (Method KMethod ImpliesDefault [] 0 None)),
       ([MethodC, AmbiguousMethodsC], Some (Method KMethod OverrideAmbiguous [MethodC, AmbiguousMethodsC] 30 None))]"
    using assms by (auto simp: core_registry_eq cls_implies_def issubclass_def)
  show ?thesis
    unfolding implies_miss[OF miss] app
    by (simp add: default_action_def call_opt_def)
qed

lemma implies_ambiguous_simple:
  assumes "list_all primary ms" "simple x"
  shows "implies (Suc (Suc (Suc (Suc (Suc n))))) (VAct (AmbiguousMethods ms)) (VAct x)
     = Inr (VBool (act_implies (AmbiguousMethods ms) x))"
proof (cases x)
  case (Method k b s p t)
  show ?thesis
  proof (cases k)
    case KMethod
    then show ?thesis using assms Method
      by (simp add: implies_hit[where b=AmbiguousOverrides] core_registry_eq any_implies_simple)
  next
    case KAround
    then show ?thesis using assms Method
      by (simp add: implies_ambiguous_other any_implies_simple)
  qed
next
  case (MethodList lk items t)
  then show ?thesis using assms
    by (cases lk) (simp_all add: implies_ambiguous_other any_implies_simple)
next
  case NoApplicableMethods
  then show ?thesis by (simp add: implies_noapp_ambiguous)
next
  case (AmbiguousMethods ms')
  then show ?thesis using assms by simp
qed

lemma implies_simple_ambiguous:
  assumes "list_all primary ms" "simple x"
  shows "implies (Suc (Suc (Suc (Suc (Suc n))))) (VAct x) (VAct (AmbiguousMethods ms))
     = Inr (VBool (act_implies x (AmbiguousMethods ms)))"
proof (cases x)
  case (Method k b s p t)
  show ?thesis
  proof (cases k)
    case KMethod
    then show ?thesis using assms Method
      by (simp add: implies_hit[where b=OverrideAmbiguous] core_registry_eq implies_all_simple)
  next
    case KAround
    then show ?thesis using assms Method
      by (simp add: implies_other_ambiguous implies_all_simple)
  qed
next
  case (MethodList lk items t)
  then show ?thesis using assms
    by (cases lk) (simp_all add: implies_other_ambiguous implies_all_simple)
next
  case NoApplicableMethods
  then show ?thesis by (simp add: implies_noapp_ambiguous)
next
  case (AmbiguousMethods ms')
  then show ?thesis using assms by simp
qed

lemma implies_flat:
  assumes "flat a1" "flat a2"
  shows "implies (Suc (Suc (Suc (Suc (Suc n))))) (VAct a1) (VAct a2) = Inr (VBool (act_implies a1 a2))"
proof (cases "simple a1")
  case s1: True
  show ?thesis
  proof (cases "simple a2")
    case True
    with s1 show ?thesis by (rule implies_simple)
  next
    case False
    with assms(2) obtain ms where "a2 = AmbiguousMethods ms" "list_all primary ms"
      by (cases a2) simp_all
    with s1 show ?thesis by (simp add: implies_simple_ambiguous)
  qed
next
  case False
  with assms(1) obtain ms where a1: "a1 = AmbiguousMethods ms" "list_all primary ms"
    by (cases a1) simp_all
  show ?thesis
  proof (cases "simple a2")
    case True
    with a1 show ?thesis by (simp add: implies_ambiguous_simple)
  next
    case False
    with assms(2) obtain ms' where "a2 = AmbiguousMethods ms'"
      by (cases a2) simp_all
    with a1 show ?thesis by (simp add: implies_ambiguous_ambiguous)
  qed
qed







section \<open>The claims\<close>

text \<open>
  In the statements below \<open>implies (Suc (Suc n))\<close> is \<^verbatim>\<open>implies\<close> with any bound of at
  least 2 on the depth of its nested calls, and likewise for the other bounds: each
  statement gives the result of the call at every bound from the one it names on.
\<close>

text \<open>
  C1. \<^verbatim>\<open>combine_actions(a1, a2)\<close> returns \<open>a2\<close> when \<open>a1\<close> is \<^verbatim>\<open>None\<close>, \<open>a1\<close> when
  \<open>a2\<close> is \<^verbatim>\<open>None\<close>, \<^verbatim>\<open>a1.override(a2)\<close> when \<^verbatim>\<open>implies(a1,a2)\<close> holds and
  \<^verbatim>\<open>implies(a2,a1)\<close> does not, \<^verbatim>\<open>a2.override(a1)\<close> when \<^verbatim>\<open>implies(a2,a1)\<close> holds and
  \<^verbatim>\<open>implies(a1,a2)\<close> does not, and \<^verbatim>\<open>a1.merge(a2)\<close> otherwise (both hold or neither
  does). It holds for whatever \<^verbatim>\<open>implies\<close> is bound to, whenever its two calls return.
\<close>

theorem combine_actions_cases:
  "combine_actions imp None a2 = Inr a2 \<and>
   combine_actions imp (Some a1) None = Inr (Some a1) \<and>
   (\<forall>b1 b2 r12 r21.
      imp (VAct b1) (VAct b2) = Inr r12 \<longrightarrow> imp (VAct b2) (VAct b1) = Inr r21 \<longrightarrow>
      combine_actions imp (Some b1) (Some b2) =
        (if truthy r12 \<and> \<not> truthy r21 then map_sum id Some (override imp b1 b2)
         else if truthy r21 \<and> \<not> truthy r12 then map_sum id Some (override imp b2 b1)
         else map_sum id Some (merge imp b1 b2)))"
  by simp

theorem combine_actions_cases_witness:
  "combine_actions (implies 4) (Some (Method KMethod (UserRet ''P'' ''P'') [IntC] 0 None))
       (Some NoApplicableMethods)
     = Inr (Some (Method KMethod (UserRet ''P'' ''P'') [IntC] 0 None)) \<and>
   combine_actions (implies 4) (Some NoApplicableMethods)
       (Some (Method KMethod (UserRet ''P'' ''P'') [IntC] 0 None))
     = Inr (Some (Method KMethod (UserRet ''P'' ''P'') [IntC] 0 None))"
proof -
  let ?m = "Method KMethod (UserRet ''P'' ''P'') [IntC] 0 None"
  have a: "implies 4 (VAct ?m) (VAct NoApplicableMethods) = Inr (VBool True)" by code_simp
  have b: "implies 4 (VAct NoApplicableMethods) (VAct ?m) = Inr (VBool False)" by code_simp
  from combine_actions_cases[of "implies 4" None ?m] a b
  have "combine_actions (implies 4) (Some ?m) (Some NoApplicableMethods) =
      map_sum id Some (override (implies 4) ?m NoApplicableMethods)"
    by (metis truthy.simps(2))
  moreover from combine_actions_cases[of "implies 4" None ?m] a b
  have "combine_actions (implies 4) (Some NoApplicableMethods) (Some ?m) =
      map_sum id Some (override (implies 4) ?m NoApplicableMethods)"
    by (metis truthy.simps(2))
  ultimately show ?thesis by simp
qed

subsection \<open>Rule sets and the registry\<close>

lemma RuleSet_add_inv:
  "dom (actiondefs rs) \<subseteq> set (rules rs) \<Longrightarrow>
   dom (actiondefs (fst (RuleSet_add rs r))) \<subseteq> set (rules (fst (RuleSet_add rs r)))"
  by (auto simp: RuleSet_add_def Let_def)

lemma RuleSet_remove_inv:
  assumes "dom (actiondefs rs) \<subseteq> set (rules rs)"
  shows "dom (actiondefs (fst (RuleSet_remove rs r))) \<subseteq> set (rules (fst (RuleSet_remove rs r)))"
proof (cases "actiondefs rs r")
  case None
  then show ?thesis using assms by (simp add: RuleSet_remove_def)
next
  case (Some sd)
  obtain sq ds where sd: "sd = (sq, ds)" by (cases sd)
  have keep: "x \<in> set (remove1 r (rules rs))" if "x \<in> dom (actiondefs rs)" "x \<noteq> r" for x
    using that assms by (auto simp: in_set_remove1)
  show ?thesis
  proof (cases "r \<in> set (rules rs)")
    case True
    have eq: "fst (RuleSet_remove rs r) =
        rs\<lparr>actiondefs := (actiondefs rs)(r := None), rules := remove1 r (rules rs)\<rparr>"
      using True Some by (simp add: RuleSet_remove_def Let_def list_remove_def sd)
    show ?thesis
    proof
      fix x
      assume "x \<in> dom (actiondefs (fst (RuleSet_remove rs r)))"
      then have "x \<in> dom (actiondefs rs)" "x \<noteq> r"
        by (auto simp: eq split: if_splits)
      then have "x \<in> set (remove1 r (rules rs))" by (rule keep)
      then show "x \<in> set (rules (fst (RuleSet_remove rs r)))" by (simp add: eq)
    qed
  next
    case False
    then show ?thesis using Some assms
      by (auto simp: RuleSet_remove_def Let_def list_remove_def sd split: if_splits)
  qed
qed

lemma RuleSet_run_inv:
  "dom (actiondefs rs) \<subseteq> set (rules rs) \<Longrightarrow>
   dom (actiondefs (RuleSet_run rs ops)) \<subseteq> set (rules (RuleSet_run rs ops))"
proof (induction ops arbitrary: rs)
  case Nil
  then show ?case by simp
next
  case (Cons o1 ops)
  then show ?case
    by (cases o1) (simp_all add: RuleSet_add_inv RuleSet_remove_inv)
qed

text \<open>
  C10. For a rule set reached from an empty one (with any listeners) by calls of
  \<^verbatim>\<open>add\<close> and \<^verbatim>\<open>remove\<close>, and a rule that is not in its list of rules,
  \<^verbatim>\<open>remove(rule)\<close> raises KeyError, leaves the rule set as it was (rules, actiondefs,
  counter and listeners) and notifies no listener.
\<close>

theorem RuleSet_remove_missing:
  "rs = RuleSet_run (RuleSet_init\<lparr>listeners := ls\<rparr>) ops \<Longrightarrow> r \<notin> set (rules rs) \<Longrightarrow>
   RuleSet_remove rs r = (rs, [], Some KeyError)"
proof -
  assume rs: "rs = RuleSet_run (RuleSet_init\<lparr>listeners := ls\<rparr>) ops" and r: "r \<notin> set (rules rs)"
  have "dom (actiondefs rs) \<subseteq> set (rules rs)"
    unfolding rs by (rule RuleSet_run_inv) (simp add: RuleSet_init_def)
  with r have "actiondefs rs r = None" by auto
  then show ?thesis by (simp add: RuleSet_remove_def)
qed

theorem RuleSet_remove_missing_witness:
  "RuleSet_remove (RuleSet_run (RuleSet_init\<lparr>listeners := [0, 1]\<rparr>)
       [Add (Rule (UserRet ''f'' ''x'') [IntC] None), Add (Rule (UserRet ''g'' ''y'') [] (Some BeforeT)),
        Remove (Rule (UserRet ''f'' ''x'') [IntC] None)])
     (Rule (UserRet ''f'' ''x'') [IntC] None)
   = (RuleSet_run (RuleSet_init\<lparr>listeners := [0, 1]\<rparr>)
       [Add (Rule (UserRet ''f'' ''x'') [IntC] None), Add (Rule (UserRet ''g'' ''y'') [] (Some BeforeT)),
        Remove (Rule (UserRet ''f'' ''x'') [IntC] None)], [], Some KeyError) \<and>
   rules (RuleSet_run (RuleSet_init\<lparr>listeners := [0, 1]\<rparr>)
       [Add (Rule (UserRet ''f'' ''x'') [IntC] None), Add (Rule (UserRet ''g'' ''y'') [] (Some BeforeT)),
        Remove (Rule (UserRet ''f'' ''x'') [IntC] None)]) = [Rule (UserRet ''g'' ''y'') [] (Some BeforeT)]"
proof -
  let ?f = "Rule (UserRet ''f'' ''x'') [IntC] None"
  let ?ops = "[Add ?f, Add (Rule (UserRet ''g'' ''y'') [] (Some BeforeT)), Remove ?f]"
  let ?rs = "RuleSet_run (RuleSet_init\<lparr>listeners := [0, 1]\<rparr>) ?ops"
  have r: "rules ?rs = [Rule (UserRet ''g'' ''y'') [] (Some BeforeT)]"
    by (simp add: RuleSet_init_def RuleSet_add_def RuleSet_remove_def list_remove_def Let_def)
  then have "?f \<notin> set (rules ?rs)" by simp
  from RuleSet_remove_missing[OF refl this] r show ?thesis by simp
qed

lemma registry_changed [simp]: "registry (changed e) = registry e"
  by (simp add: changed_def)

lemma map_of_dict_set: "map_of (dict_set d k v) = (map_of d)(k \<mapsto> v)"
  by (induction d) (auto simp: fun_eq_iff)

lemma keys_dict_set:
  "map fst (dict_set d k v) = (if k \<in> fst ` set d then map fst d else map fst d @ [k])"
  by (induction d) (force+)

lemma values_dict_set: "(k', v') \<in> set (dict_set d k v) \<Longrightarrow> v' = v \<or> (k', v') \<in> set d"
  by (induction d) (auto split: if_splits)

lemma combine_actions_not_None:
  "combine_actions imp (Some a) old = Inr c \<Longrightarrow> c \<noteq> None"
  by (cases old) (auto split: sum.splits if_splits simp: map_sum_def)

lemma add_method_inv:
  assumes "distinct (map fst (registry e))" "None \<notin> snd ` set (registry e)"
    "add_method imp e sg (Some a) = Inr e'"
  shows "distinct (map fst (registry e')) \<and> None \<notin> snd ` set (registry e')"
proof -
  from assms(3) obtain c where c: "registry e' = dict_set (registry e) sg c" "c \<noteq> None"
    by (auto simp: add_method_def split: option.splits sum.splits dest: combine_actions_not_None)
  have "distinct (map fst (registry e'))"
    using assms(1) by (auto simp: c(1) keys_dict_set)
  moreover have "None \<notin> snd ` set (registry e')"
    using values_dict_set[of _ None "registry e" sg c] assms(2) c(2) unfolding c(1) by force
  ultimately show ?thesis by simp
qed

lemma add_methods_inv:
  "distinct (map fst (registry e)) \<Longrightarrow> None \<notin> snd ` set (registry e) \<Longrightarrow>
   distinct (map fst (registry (add_methods imp e calls))) \<and>
   None \<notin> snd ` set (registry (add_methods imp e calls))"
proof (induction calls arbitrary: e)
  case Nil
  then show ?case by simp
next
  case (Cons c calls)
  obtain sg a where c: "c = (sg, a)" by (cases c)
  show ?case
  proof (cases "add_method imp e sg (Some a)")
    case (Inl er)
    then show ?thesis using Cons by (simp add: c)
  next
    case (Inr e')
    from add_method_inv[OF Cons.prems Inr] Cons.IH[of e'] Inr show ?thesis by (simp add: c)
  qed
qed

text \<open>
  C8. After any sequence of \<^verbatim>\<open>add_method\<close> calls with actions that are not
  \<^verbatim>\<open>None\<close>, starting from an empty registry, the keys of the registry are distinct and
  no value is \<^verbatim>\<open>None\<close>. A call with a signature that is not in the registry stores the
  action as it is; a call with a signature that is in it stores
  \<^verbatim>\<open>combine_actions(action, registry[sig])\<close>, the new action first, or raises what
  \<^verbatim>\<open>combine_actions\<close> raises. The other entries stay.
\<close>

theorem add_method_registry:
  "(registry e = [] \<longrightarrow>
      distinct (map fst (registry (add_methods imp e calls))) \<and>
      None \<notin> snd ` set (registry (add_methods imp e calls))) \<and>
   (map_of (registry e) sg = None \<longrightarrow>
      (\<exists>e'. add_method imp e sg (Some a) = Inr e' \<and>
            map_of (registry e') = (map_of (registry e))(sg \<mapsto> Some a))) \<and>
   (\<forall>old. map_of (registry e) sg = Some old \<longrightarrow>
      (case combine_actions imp (Some a) old of
         Inl er \<Rightarrow> add_method imp e sg (Some a) = Inl er
       | Inr c \<Rightarrow> (\<exists>e'. add_method imp e sg (Some a) = Inr e' \<and>
            map_of (registry e') = (map_of (registry e))(sg \<mapsto> c))))"
proof (intro conjI impI allI)
  assume "registry e = []"
  then show "distinct (map fst (registry (add_methods imp e calls)))"
    and "None \<notin> snd ` set (registry (add_methods imp e calls))"
    using add_methods_inv[of e imp calls] by simp_all
next
  assume "map_of (registry e) sg = None"
  then show "\<exists>e'. add_method imp e sg (Some a) = Inr e' \<and>
      map_of (registry e') = (map_of (registry e))(sg \<mapsto> Some a)"
    by (simp add: add_method_def map_of_dict_set)
next
  fix old
  assume "map_of (registry e) sg = Some old"
  then show "case combine_actions imp (Some a) old of
         Inl er \<Rightarrow> add_method imp e sg (Some a) = Inl er
       | Inr c \<Rightarrow> (\<exists>e'. add_method imp e sg (Some a) = Inr e' \<and>
            map_of (registry e') = (map_of (registry e))(sg \<mapsto> c))"
    by (simp add: add_method_def map_of_dict_set split: sum.splits)
qed


theorem add_method_registry_witness:
  "(distinct (map fst (registry (add_methods (implies 4)
        \<lparr>registry = [], static_cache = [], cache = []\<rparr>
        [([IntC], Method KMethod (UserRet ''P'' ''P'') [IntC] 0 None),
         ([IntC], MethodList KBefore [([IntC], 1, UserRet ''B'' ''b'')] None)]))) \<and>
    None \<notin> snd ` set (registry (add_methods (implies 4)
        \<lparr>registry = [], static_cache = [], cache = []\<rparr>
        [([IntC], Method KMethod (UserRet ''P'' ''P'') [IntC] 0 None),
         ([IntC], MethodList KBefore [([IntC], 1, UserRet ''B'' ''b'')] None)]))) \<and>
   (\<exists>e'. add_method (implies 4) \<lparr>registry = [], static_cache = [], cache = []\<rparr> [IntC]
            (Some (Method KMethod (UserRet ''P'' ''P'') [IntC] 0 None)) = Inr e' \<and>
         map_of (registry e') = [[IntC] \<mapsto> Some (Method KMethod (UserRet ''P'' ''P'') [IntC] 0 None)]) \<and>
   (\<exists>e'. add_method (implies 4)
            \<lparr>registry = [([IntC], Some (Method KMethod (UserRet ''P'' ''P'') [IntC] 0 None))],
             static_cache = [], cache = []\<rparr> [IntC]
            (Some (MethodList KBefore [([IntC], 1, UserRet ''B'' ''b'')] None)) = Inr e' \<and>
         map_of (registry e') =
           [[IntC] \<mapsto> Some (MethodList KBefore [([IntC], 1, UserRet ''B'' ''b'')]
                            (Some (Method KMethod (UserRet ''P'' ''P'') [IntC] 0 None)))])"
proof -
  let ?P = "Method KMethod (UserRet ''P'' ''P'') [IntC] 0 None"
  let ?B = "MethodList KBefore [([IntC], 1, UserRet ''B'' ''b'')] None"
  let ?e0 = "\<lparr>registry = [], static_cache = [], cache = []\<rparr>"
  let ?e1 = "\<lparr>registry = [([IntC], Some ?P)], static_cache = [], cache = []\<rparr>"
  have c: "combine_actions (implies 4) (Some ?B) (Some ?P) =
      Inr (Some (MethodList KBefore [([IntC], 1, UserRet ''B'' ''b'')] (Some ?P)))"
    by code_simp
  from add_method_registry[of ?e0 "implies 4" "[([IntC], ?P), ([IntC], ?B)]" "[IntC]" ?P]
  have 1: "distinct (map fst (registry (add_methods (implies 4) ?e0 [([IntC], ?P), ([IntC], ?B)]))) \<and>
      None \<notin> snd ` set (registry (add_methods (implies 4) ?e0 [([IntC], ?P), ([IntC], ?B)]))"
    and 2: "\<exists>e'. add_method (implies 4) ?e0 [IntC] (Some ?P) = Inr e' \<and>
      map_of (registry e') = [[IntC] \<mapsto> Some ?P]"
    by simp_all
  from add_method_registry[of ?e1 "implies 4" "[]" "[IntC]" ?B] c
  have 3: "\<exists>e'. add_method (implies 4) ?e1 [IntC] (Some ?B) = Inr e' \<and>
      map_of (registry e') =
        [[IntC] \<mapsto> Some (MethodList KBefore [([IntC], 1, UserRet ''B'' ''b'')] (Some ?P))]"
    by simp
  from 1 2 3 show ?thesis by blast
qed

subsection \<open>The implication kernel\<close>



text \<open>
  C6, as the code has it. On two tuples \<^verbatim>\<open>implies\<close> is \<^verbatim>\<open>tuple_implies\<close>: false when
  the second is longer, and otherwise the conjunction, from left to right, of
  \<^verbatim>\<open>implies\<close> on the pairs of \<^verbatim>\<open>zip(s1, s2)\<close>. On two signatures it is true exactly
  when the second is not longer and \<^verbatim>\<open>implies\<close> is true at each of its positions. Every
  signature implies the empty signature; the empty signature implies only itself.
\<close>

theorem tuple_signature_implies:
  "implies (Suc n) (VTuple xs) (VTuple ys) =
     (if length ys > length xs then Inr (VBool False) else all_implies (implies n) (zip xs ys)) \<and>
   implies (Suc (Suc n)) (sigv s1) (sigv s2) =
     Inr (VBool (length s2 \<le> length s1 \<and>
       (\<forall>i<length s2. implies (Suc n) (VCls (s1 ! i)) (VCls (s2 ! i)) = Inr (VBool True)))) \<and>
   implies (Suc (Suc n)) (sigv s1) (sigv []) = Inr (VBool True) \<and>
   implies (Suc (Suc n)) (sigv []) (sigv s2) = Inr (VBool (s2 = []))"
proof -
  have "sig_implies [] s2 = (s2 = [])" by (cases s2) simp_all
  then show ?thesis
    by (simp add: implies_tuple_tuple implies_sig implies_cls sig_implies_nth)
qed

theorem tuple_signature_implies_witness:
  "implies 2 (sigv [BoolC, StrC, IntC]) (sigv [IntC, ObjectC]) = Inr (VBool True) \<and>
   implies 2 (sigv [IntC, ObjectC]) (sigv [BoolC, StrC, IntC]) = Inr (VBool False) \<and>
   implies 2 (sigv [IntC, StrC]) (sigv [BoolC, ObjectC]) = Inr (VBool False)"
proof -
  have c: "implies (Suc 0) (VCls a) (VCls b) = Inr (VBool (cls_implies a b))" for a b
    by (rule implies_cls)
  have 1: "\<forall>i<length [IntC, ObjectC]. implies (Suc 0) (VCls ([BoolC, StrC, IntC] ! i)) (VCls ([IntC, ObjectC] ! i)) = Inr (VBool True)"
    by (simp add: c less_Suc_eq_0_disj less_Suc_eq)
  have 2: "\<not> (\<forall>i<length [BoolC, ObjectC]. implies (Suc 0) (VCls ([IntC, StrC] ! i)) (VCls ([BoolC, ObjectC] ! i)) = Inr (VBool True))"
    by (auto simp: c intro!: exI[of _ 0])
  from tuple_signature_implies[of 0 "[]" "[]" "[BoolC, StrC, IntC]" "[IntC, ObjectC]"] 1
    tuple_signature_implies[of 0 "[]" "[]" "[IntC, ObjectC]" "[BoolC, StrC, IntC]"]
    tuple_signature_implies[of 0 "[]" "[]" "[IntC, StrC]" "[BoolC, ObjectC]"] 2
  show ?thesis by (simp add: eval_nat_numeral)
qed

text \<open>
  The claim C6 as stated fails in its last part: the empty signature does not imply
  \<^verbatim>\<open>(int,)\<close> (\<^verbatim>\<open>len(s2)>len(s1)\<close>: a shorter tuple cannot imply a longer one).
\<close>

theorem empty_signature_counterexample:
  "implies 4 (sigv []) (sigv [IntC]) = Inr (VBool False) \<and>
   implies 4 (sigv []) (sigv [IntC]) \<noteq> Inr (VBool True)"
  using implies_sig[of 2 "[]" "[IntC]"] by (simp add: eval_nat_numeral)

text \<open>
  C7, as the code has it. For a boolean \<open>x\<close> the four equations of the claim hold
  (\<^verbatim>\<open>c2 or not c1\<close>). For \<open>x\<close> of any other class, \<^verbatim>\<open>implies(True, x)\<close> is false and
  \<^verbatim>\<open>implies(False, x)\<close> is true (\<^verbatim>\<open>not c1\<close>), \<^verbatim>\<open>implies(x, True)\<close> is true and
  \<^verbatim>\<open>implies(x, False)\<close> is false (\<^verbatim>\<open>c2\<close>).
\<close>

theorem implies_bool_rules:
  "implies (Suc (Suc (Suc (Suc n)))) (VBool True) (VBool b) = Inr (VBool b) \<and>
   implies (Suc (Suc (Suc (Suc n)))) (VBool False) (VBool b) = Inr (VBool True) \<and>
   implies (Suc (Suc (Suc (Suc n)))) (VBool b) (VBool True) = Inr (VBool True) \<and>
   implies (Suc (Suc (Suc (Suc n)))) (VBool b) (VBool False) = Inr (VBool (\<not> b)) \<and>
   (class_of x \<noteq> BoolC \<longrightarrow>
      implies (Suc (Suc (Suc (Suc n)))) (VBool True) x = Inr (VBool False) \<and>
      implies (Suc (Suc (Suc (Suc n)))) (VBool False) x = Inr (VBool True) \<and>
      implies (Suc (Suc (Suc (Suc n)))) x (VBool True) = Inr (VBool True) \<and>
      implies (Suc (Suc (Suc (Suc n)))) x (VBool False) = Inr (VBool False))"
  by (simp add: implies_bool_bool implies_bool_other implies_other_bool)

theorem implies_bool_rules_witness:
  "implies 4 (VBool True) (VStr ''x'') = Inr (VBool False) \<and>
   implies 4 (VBool False) (VStr ''x'') = Inr (VBool True) \<and>
   implies 4 (VStr ''x'') (VBool True) = Inr (VBool True) \<and>
   implies 4 (VStr ''x'') (VBool False) = Inr (VBool False)"
  using implies_bool_rules[of 0 True "VStr ''x''"] by (simp add: eval_nat_numeral)

text \<open>
  The claim C7 as stated fails for values that are not booleans: \<^verbatim>\<open>implies(True, 5)\<close> is
  \<^verbatim>\<open>False\<close>, not \<^verbatim>\<open>5\<close> (which is true), and \<^verbatim>\<open>implies(0, False)\<close> is \<^verbatim>\<open>False\<close>, not
  \<^verbatim>\<open>not 0\<close>.
\<close>

theorem implies_bool_counterexample:
  "implies 4 (VBool True) (VInt 5) = Inr (VBool False) \<and> truthy (VInt 5) \<and>
   implies 4 (VInt 0) (VBool False) = Inr (VBool False) \<and> \<not> truthy (VInt 0)"
  using implies_bool_other[of "VInt 5" 0 True] implies_other_bool[of "VInt 0" 0 False]
  by (simp add: eval_nat_numeral)

subsection \<open>Dominance\<close>






lemma dominates_irrefl [simp]: "\<not> dominates x x"
  by (simp add: dominates_def)












subsection \<open>Generic functions\<close>

text \<open>
  C3, on the code. A generic function with a primary rule \<open>P\<close> on \<^verbatim>\<open>(int,)\<close> that
  returns \<^verbatim>\<open>"P"\<close>, a before rule \<open>B2\<close> on \<^verbatim>\<open>(object,)\<close>, a before rule \<open>B1\<close> on the more
  specific \<^verbatim>\<open>(int,)\<close> and an after rule \<open>A\<close> on \<^verbatim>\<open>(int,)\<close>, called with an int: the
  bodies run in the order B1, B2, P, A, as the claim says, but the call returns
  \<^verbatim>\<open>None\<close> where the claim says \<^verbatim>\<open>"P"\<close>: \<^verbatim>\<open>After.__call__\<close> assigns the result of
  its tail to \<^verbatim>\<open>retval\<close> and has no \<^verbatim>\<open>return\<close>.
\<close>

theorem before_after_scenario:
  "gf_call (implies 4)
     (fst (gf_add_all (implies 4) Dispatching_init
        [Rule (UserRet ''P'' ''P'') [IntC] None,
         Rule (UserRet ''B2'' ''b2'') [ObjectC] (Some BeforeT),
         Rule (UserRet ''B1'' ''b1'') [IntC] (Some BeforeT),
         Rule (UserRet ''A'' ''a'') [IntC] (Some AfterT)]))
     [VInt 3]
   = ([''B1'', ''B2'', ''P'', ''A''], Inr VNone)"
  by code_simp













subsection \<open>Failures of combine_actions\<close>

lemma not_KMethod: "(k \<noteq> KMethod) = (k = KAround)"
  by (cases k) simp_all

lemma primary_list: "primary m \<Longrightarrow> simple a \<Longrightarrow> \<not> primary a \<Longrightarrow> act_implies m a = (\<not> act_implies a m)"
  by (cases m; cases a) (auto simp: not_KMethod)

lemma equal_implies_mergeable:
  assumes "flat a1" "flat a2" "act_implies a1 a2 = act_implies a2 a1"
  shows "mergeable a1 a2"
proof (cases a1)
  case m1: (Method k1 b1 s1 p1 t1)
  show ?thesis using assms m1 by (cases a2) (auto simp: not_KMethod)
next
  case l1: (MethodList lk1 i1 t1)
  show ?thesis
  proof (cases a2)
    case (AmbiguousMethods ms)
    have "act_implies m a1 = (\<not> act_implies a1 m)" if "m \<in> set ms" for m
      using that assms(1,2) l1 AmbiguousMethods primary_list[of m a1]
      by (auto simp: list_all_iff)
    then have "act_implies a2 a1 = (\<not> act_implies a1 a2)"
      using l1 AmbiguousMethods by auto
    with assms(3) show ?thesis by simp
  next
    case (Method k2 b2 s2 p2 t2)
    then show ?thesis using assms l1 by (cases k2) auto
  next
    case (MethodList lk2 i2 t2)
    then show ?thesis using assms l1 by (cases lk1; cases lk2) auto
  next
    case NoApplicableMethods
    then show ?thesis using assms l1 by auto
  qed
next
  case NoApplicableMethods
  then show ?thesis using assms by (cases a2) auto
next
  case a1: (AmbiguousMethods ms)
  show ?thesis
  proof (cases a2)
    case l2: (MethodList lk2 i2 t2)
    have "act_implies m a2 = (\<not> act_implies a2 m)" if "m \<in> set ms" for m
      using that assms(1,2) a1 l2 primary_list[of m a2]
      by (auto simp: list_all_iff)
    then have "act_implies a1 a2 = (\<not> act_implies a2 a1)"
      using a1 l2 by auto
    with assms(3) show ?thesis by simp
  qed (use a1 in auto)
qed

lemma flatten_methods_append: "flatten_methods (xs @ ys) = flatten_methods xs @ flatten_methods ys"
  by (induction xs rule: flatten_methods.induct) simp_all

lemma flatten_methods_primary: "list_all primary ms \<Longrightarrow> flatten_methods ms = ms"
  by (induction ms rule: flatten_methods.induct) simp_all

lemma flatten_methods_std:
  "std other \<Longrightarrow> mergeable NoApplicableMethods other \<Longrightarrow> list_all primary (flatten_methods [other])"
  by (cases other) simp_all

lemma combine_std:
  assumes ok: "\<And>a1 a2. flat a1 \<Longrightarrow> flat a2 \<Longrightarrow> imp0 (VAct a1) (VAct a2) = Inr (VBool (act_implies a1 a2))"
  shows "imp = imp0 \<Longrightarrow> opt_std x \<Longrightarrow> opt_std y \<Longrightarrow>
         \<exists>r. combine_actions imp x y = Inr r \<and> opt_std r \<and> (r = None \<longrightarrow> x = None \<and> y = None)"
    and "imp = imp0 \<Longrightarrow> std a \<Longrightarrow> std other \<Longrightarrow> a \<noteq> NoApplicableMethods \<Longrightarrow>
         \<exists>r. override imp a other = Inr r \<and> std r"
    and "imp = imp0 \<Longrightarrow> std a \<Longrightarrow> std other \<Longrightarrow> mergeable a other \<Longrightarrow>
         \<exists>r. merge imp a other = Inr r \<and> std r"
proof (induction imp x y and imp a other and imp a other rule: combine_actions_override_merge.induct)
  case (1 imp a2)
  then show ?case by simp
next
  case (2 imp a1)
  then show ?case by simp
next
  case (3 imp a1 a2)
  have s: "std a1" "std a2" using 3(6,7) by (simp_all add: opt_std_def)
  then have f: "flat a1" "flat a2" by (simp_all add: std_flat)
  have r12: "imp (VAct a1) (VAct a2) = Inr (VBool (act_implies a1 a2))"
    and r21: "imp (VAct a2) (VAct a1) = Inr (VBool (act_implies a2 a1))"
    using ok f 3(5) by simp_all
  show ?case
  proof (cases "act_implies a1 a2")
    case t12: True
    then have n1: "a1 \<noteq> NoApplicableMethods" by auto
    show ?thesis
    proof (cases "act_implies a2 a1")
      case True
      have "mergeable a1 a2" using equal_implies_mergeable[OF f] t12 True by simp
      from 3(2)[OF r12 _ r21 _ 3(5) s this] t12 True obtain r where
        "merge imp a1 a2 = Inr r" "std r" by auto
      then show ?thesis using r12 r21 t12 True by (simp add: opt_std_def)
    next
      case False
      from 3(1)[OF r12 _ r21 _ 3(5) s n1] t12 False obtain r where
        "override imp a1 a2 = Inr r" "std r" by auto
      then show ?thesis using r12 r21 t12 False by (simp add: opt_std_def)
    qed
  next
    case f12: False
    show ?thesis
    proof (cases "act_implies a2 a1")
      case True
      then have n2: "a2 \<noteq> NoApplicableMethods" by auto
      from 3(3)[OF r12 _ r21 _ 3(5) s(2) s(1) n2] f12 True obtain r where
        "override imp a2 a1 = Inr r" "std r" by auto
      then show ?thesis using r12 r21 f12 True by (simp add: opt_std_def)
    next
      case False
      have "mergeable a1 a2" using equal_implies_mergeable[OF f] f12 False by simp
      from 3(4)[OF r12 _ r21 _ 3(5) s this] f12 False obtain r where
        "merge imp a1 a2 = Inr r" "std r" by auto
      then show ?thesis using r12 r21 f12 False by (simp add: opt_std_def)
    qed
  qed
next
  case (4 imp k b s p t other)
  show ?case
  proof (cases "chainable b")
    case True
    have "opt_std t" "opt_std (Some other)" using 4(3,4) by (simp_all add: opt_std_def split: option.splits)
    from 4(1)[OF _ 4(2) this] True obtain r where
      "combine_actions imp t (Some other) = Inr r" "opt_std r" by auto
    then show ?thesis using True by (auto simp: opt_std_def)
  next
    case False
    then show ?thesis using 4(3) by simp
  qed
next
  case (5 imp k items t other)
  have "opt_std t" "opt_std (Some other)" using 5(3,4) by (simp_all add: opt_std_def split: option.splits)
  from 5(1)[OF 5(2) this] obtain r where
    "combine_actions imp t (Some other) = Inr r" "opt_std r" by auto
  then show ?case using 5(3) by (auto simp: opt_std_def)
next
  case (6 imp other)
  then show ?case by simp
next
  case (7 imp ms other)
  then show ?case by simp
next
  case (8 imp k b s p t other)
  have "mergeable NoApplicableMethods other" using 8(4) by (cases other) simp_all
  from flatten_methods_std[OF 8(3) this] show ?case
    by (simp add: AmbiguousMethods_init_def)
next
  case (9 imp k items t other)
  from 9(5) obtain items' t' where other: "other = MethodList k items' t'"
    by (cases other) simp_all
  have "opt_std t" "opt_std t'" using 9(3,4) other by (simp_all add: opt_std_def split: option.splits)
  from 9(1)[OF other _ 9(2) this] obtain r where
    "combine_actions imp t t' = Inr r" "opt_std r" by auto
  then show ?case using 9(3) other by (auto simp: opt_std_def)
next
  case (10 imp other)
  from flatten_methods_std[OF 10(3) 10(4)] show ?case
    by (simp add: AmbiguousMethods_init_def)
next
  case (11 imp ms other)
  have "mergeable NoApplicableMethods other" using 11(4) by (cases other) simp_all
  from flatten_methods_std[OF 11(3) this] 11(2) show ?case
    by (simp add: AmbiguousMethods_init_def flatten_methods_append flatten_methods_primary)
qed

lemma implies_method_list:
  "implies (Suc (Suc (Suc (Suc n)))) (VAct (Method KMethod b s p t)) (VAct (MethodList KMethodList items t'))
     = Inl (TypeError ''Incompatible action types'')"
proof -
  let ?s1 = "VAct (Method KMethod b s p t)" and ?s2 = "VAct (MethodList KMethodList items t')"
  have miss: "map_of core_registry [class_of ?s1, class_of ?s2] = None"
    by (simp add: core_registry_eq)
  have app: "filter (\<lambda>(sg, a). sig_implies [class_of ?s1, class_of ?s2] sg) core_registry =
      [([], Some (Method KMethod ImpliesDefault [] 0 None)),
       ([MethodC, MethodC], Some (Method KMethod MethodImplies [MethodC, MethodC] 6 None))]"
    by (simp add: core_registry_eq cls_implies_def issubclass_def)
  show ?thesis
    unfolding implies_miss[OF miss] app
    by (simp add: default_action_def call_opt_def)
qed

text \<open>
  C9, as the code has it. \<^verbatim>\<open>method_implies\<close> raises TypeError "Incompatible action
  types" on two \<^verbatim>\<open>Method\<close> instances of different classes, and so does combining a
  \<^verbatim>\<open>Method\<close> with a bare \<^verbatim>\<open>MethodList\<close>; \<^verbatim>\<open>MethodList.merge\<close> raises TypeError
  "Incompatible action types for merge" unless the other action is a method list of the
  same class. Combining two actions of the kinds that \<^verbatim>\<open>when\<close>, \<^verbatim>\<open>around\<close>,
  \<^verbatim>\<open>before\<close> and \<^verbatim>\<open>after\<close> lead to never raises, whatever their signatures, and gives
  an action of these kinds again.
\<close>

theorem combine_failures:
  "(k1 \<noteq> k2 \<longrightarrow>
      method_implies imp (VAct (Method k1 b1 s1 p1 t1)) (VAct (Method k2 b2 s2 p2 t2))
        = Inl (TypeError ''Incompatible action types'')) \<and>
   combine_actions (implies (Suc (Suc (Suc (Suc (Suc n))))))
       (Some (Method KMethod b s p t)) (Some (MethodList KMethodList items t'))
     = Inl (TypeError ''Incompatible action types'') \<and>
   (\<not> mergeable (MethodList lk items t') other \<longrightarrow>
      merge imp (MethodList lk items t') other = Inl (TypeError ''Incompatible action types for merge'')) \<and>
   (std a1 \<and> std a2 \<longrightarrow>
      (\<exists>r. combine_actions (implies (Suc (Suc (Suc (Suc (Suc n)))))) (Some a1) (Some a2) = Inr (Some r) \<and>
           std r))"
proof (intro conjI impI)
  assume "k1 \<noteq> k2"
  then show "method_implies imp (VAct (Method k1 b1 s1 p1 t1)) (VAct (Method k2 b2 s2 p2 t2))
      = Inl (TypeError ''Incompatible action types'')"
    by simp
next
  show "combine_actions (implies (Suc (Suc (Suc (Suc (Suc n))))))
       (Some (Method KMethod b s p t)) (Some (MethodList KMethodList items t'))
     = Inl (TypeError ''Incompatible action types'')"
    by (simp add: implies_method_list)
next
  assume "\<not> mergeable (MethodList lk items t') other"
  then show "merge imp (MethodList lk items t') other
      = Inl (TypeError ''Incompatible action types for merge'')"
    by (cases other) auto
next
  assume a: "std a1 \<and> std a2"
  have "\<exists>r. combine_actions (implies (Suc (Suc (Suc (Suc (Suc n)))))) (Some a1) (Some a2) = Inr r \<and>
      opt_std r \<and> (r = None \<longrightarrow> Some a1 = None \<and> Some a2 = None)"
    using a by (intro combine_std(1)[OF implies_flat refl]) (simp_all add: opt_std_def)
  then show "\<exists>r. combine_actions (implies (Suc (Suc (Suc (Suc (Suc n)))))) (Some a1) (Some a2) = Inr (Some r) \<and>
      std r"
    by (auto simp: opt_std_def)
qed

theorem combine_failures_witness:
  "method_implies (implies 4) (VAct (Method KMethod (UserRet ''P'' ''P'') [IntC] 0 None))
       (VAct (Method KAround (UserRet ''Q'' ''Q'') [IntC] 1 None))
     = Inl (TypeError ''Incompatible action types'') \<and>
   merge (implies 5) (MethodList KBefore [([IntC], 1, UserRet ''B'' ''b'')] None)
       (MethodList KAfter [([IntC], 2, UserRet ''A'' ''a'')] None)
     = Inl (TypeError ''Incompatible action types for merge'') \<and>
   (\<exists>r. combine_actions (implies 5)
           (Some (MethodList KAfter [([IntC], 2, UserRet ''A'' ''a'')] None))
           (Some (MethodList KBefore [([IntC], 1, UserRet ''B'' ''b'')]
                   (Some (Method KMethod (UserRet ''P'' ''P'') [IntC] 0 None)))) = Inr (Some r) \<and>
        std r)"
proof -
  let ?P = "Method KMethod (UserRet ''P'' ''P'') [IntC] 0 None"
  let ?Q = "Method KAround (UserRet ''Q'' ''Q'') [IntC] 1 None"
  let ?B = "MethodList KBefore [([IntC], 1, UserRet ''B'' ''b'')] None"
  let ?BP = "MethodList KBefore [([IntC], 1, UserRet ''B'' ''b'')] (Some ?P)"
  let ?A = "MethodList KAfter [([IntC], 2, UserRet ''A'' ''a'')] None"
  have five: "(5::nat) = Suc (Suc (Suc (Suc (Suc 0))))" by simp
  have 1: "KMethod \<noteq> KAround" by simp
  have 2: "\<not> mergeable ?B ?A" by simp
  have 3: "std ?A \<and> std ?BP" by simp
  from combine_failures[of KMethod KAround "implies 4" "UserRet ''P'' ''P''" "[IntC]" 0 None
      "UserRet ''Q'' ''Q''" "[IntC]" 1 None 0 "UserRet ''P'' ''P''" "[]" 0 None "[]" None KMethodList ?P ?P ?P] 1
  have a: "method_implies (implies 4) (VAct ?P) (VAct ?Q) = Inl (TypeError ''Incompatible action types'')"
    by blast
  from combine_failures[of KMethod KMethod "implies 5" "UserRet ''P'' ''P''" "[IntC]" 0 None
      "UserRet ''Q'' ''Q''" "[IntC]" 1 None 0 "UserRet ''P'' ''P''" "[]" 0 None
      "[([IntC], 1, UserRet ''B'' ''b'')]" None KBefore ?A ?A ?BP] 2 3
  have b: "merge (implies 5) ?B ?A = Inl (TypeError ''Incompatible action types for merge'')"
    and c: "\<exists>r. combine_actions (implies (Suc (Suc (Suc (Suc (Suc 0)))))) (Some ?A) (Some ?BP) = Inr (Some r) \<and> std r"
    by blast+
  from a b c show ?thesis unfolding five by blast
qed

text \<open>
  The claim C9 as stated fails in its last part: a rule of kind \<^verbatim>\<open>Before\<close> added at the
  signature of a rule whose action type is \<^verbatim>\<open>MethodList.make\<close> raises
  \<^verbatim>\<open>AmbiguousMethods\<close>, from the dispatch of \<^verbatim>\<open>implies\<close> on the two actions (the
  rules on \<^verbatim>\<open>(MethodList, MethodList)\<close> and \<^verbatim>\<open>(Before, Method)\<close> both apply and
  neither is more specific).
\<close>

theorem combine_failures_counterexample:
  "snd (gf_add_all (implies 5) Dispatching_init
     [Rule (UserRet ''m'' ''x'') [IntC] (Some MethodListT),
      Rule (UserRet ''B'' ''b'') [IntC] (Some BeforeT)])
   = Some (AmbiguousMethodsE
       [Method KMethod NO [MethodListC, MethodListC] 10 None,
        Method KMethod YES [BeforeC, MethodC] 22 None]
       [VAct (MethodList KBefore [([IntC], 1, UserRet ''B'' ''b'')] None),
        VAct (MethodList KMethodList [([IntC], 0, UserRet ''m'' ''x'')] None)])"
  by code_simp

end
